theory Spec2Isabelle
  imports Main "HOL-Library.Sublist"
begin

section \<open>Strings, versions and TOML values\<close>

text \<open>
  JavaScript strings are modelled as \<^typ>\<open>string\<close>, read as the UTF-8 bytes of the text.
  Every character class and every search needle of the source is ASCII, so the byte
  view and the UTF-16 view agree on them.
\<close>

text \<open>The character class \<^verbatim>\<open>[a-zA-Z0-9_-]\<close> of both regular expressions.\<close>

definition isNameChar :: "char \<Rightarrow> bool" where
  "isNameChar c =
     (c \<in> set ''abcdefghijklmnopqrstuvwxyzABCDEFGHIJKLMNOPQRSTUVWXYZ0123456789_-'')"

text \<open>\<^verbatim>\<open>String.prototype.includes\<close>.\<close>

fun str_includes :: "string \<Rightarrow> string \<Rightarrow> bool" where
  "str_includes [] sub = (sub = [])"
| "str_includes (c # cs) sub = (prefix sub (c # cs) \<or> str_includes cs sub)"

text \<open>
  The regular-expression dot matches every character but a line terminator: LF, CR,
  U+2028 and U+2029 (the last two are three bytes each in UTF-8).
\<close>

definition lineTerminatorAt :: "string \<Rightarrow> bool" where
  "lineTerminatorAt s =
     (prefix [CHR 0x0A] s \<or> prefix [CHR 0x0D] s \<or>
      prefix [CHR 0xE2, CHR 0x80, CHR 0xA8] s \<or> prefix [CHR 0xE2, CHR 0x80, CHR 0xA9] s)"

text \<open>What \<^verbatim>\<open>(.*)\<close> captures: the text up to the first line terminator.\<close>

fun restOfLine :: "string \<Rightarrow> string" where
  "restOfLine [] = []"
| "restOfLine (c # cs) = (if lineTerminatorAt (c # cs) then [] else c # restOfLine cs)"

text \<open>
  \<^verbatim>\<open>s.trim() === ''\<close>: the string holds white space only. The ASCII white space of
  ECMAScript is listed; the branch this test guards returns what the default branch
  returns, so the non-ASCII white space cannot change a result.
\<close>

definition trimIsEmpty :: "string \<Rightarrow> bool" where
  "trimIsEmpty s =
     (\<forall>c \<in> set s. c \<in> set [CHR '' '', CHR 0x09, CHR 0x0A, CHR 0x0B, CHR 0x0C, CHR 0x0D])"

text \<open>Decimal rendering of a number, as in a template literal.\<close>

definition digitChar :: "nat \<Rightarrow> char" where
  "digitChar d = ''0123456789'' ! (d mod 10)"

fun showNat :: "nat \<Rightarrow> string" where
  "showNat n = (if n < 10 then [digitChar n] else showNat (n div 10) @ [digitChar (n mod 10)])"

declare showNat.simps [simp del]

text \<open>
  Modelled from the spec: the class \<^verbatim>\<open>Version\<close> (\<^verbatim>\<open>src/version.ts\<close>) is imported by every
  source file and is not among them. The spec calls its values parsed semantic versions
  and names the operations \<^verbatim>\<open>parseVersion(string) -> Version\<close> and a bump policy whose
  default increments the patch component.
\<close>

record version =
  major :: nat
  minor :: nat
  patch :: nat
  preRelease :: "string option"
  build :: "string option"

definition versionToString :: "version \<Rightarrow> string" where
  "versionToString v =
     showNat (major v) @ ''.'' @ showNat (minor v) @ ''.'' @ showNat (patch v) @
     (case preRelease v of None \<Rightarrow> [] | Some p \<Rightarrow> ''-'' @ p) @
     (case build v of None \<Rightarrow> [] | Some b \<Rightarrow> ''+'' @ b)"




text \<open>The text before the first occurrence of a character, and the text after it.\<close>

definition beforeChar :: "char \<Rightarrow> string \<Rightarrow> string" where
  "beforeChar c s = takeWhile (\<lambda>x. x \<noteq> c) s"


datatype error =
  ConfigurationError string
  | Error string


text \<open>
  Modelled from the spec: \<^verbatim>\<open>PatchVersionUpdate.bump\<close> (\<^verbatim>\<open>src/versioning-strategy.ts\<close>, not
  among the sources), the default bump policy: increment the patch component.
\<close>

definition PatchVersionUpdate_bump :: "version \<Rightarrow> version" where
  "PatchVersionUpdate_bump v = v \<lparr> patch := patch v + 1 \<rparr>"

type_synonym VersionsMap = "string \<rightharpoonup> version"

text \<open>
  A TOML value as JavaScript sees it after parsing. \<open>TOther\<close> stands for arrays,
  tables and dates: objects, which are always truthy and never of type string.
\<close>

datatype tomlValue =
  TString string
  | TInteger int
  | TBoolean bool
  | TOther

text \<open>JavaScript truthiness of an optional property holding a TOML value.\<close>

fun truthy :: "tomlValue option \<Rightarrow> bool" where
  "truthy None = False"
| "truthy (Some (TString s)) = (s \<noteq> [])"
| "truthy (Some (TInteger i)) = (i \<noteq> 0)"
| "truthy (Some (TBoolean b)) = b"
| "truthy (Some TOther) = True"

text \<open>Truthiness of an optional string property: present and not empty.\<close>

fun truthyStr :: "string option \<Rightarrow> bool" where
  "truthyStr None = False"
| "truthyStr (Some s) = (s \<noteq> [])"

datatype logEntry =
  Warn string
  | Info string

section \<open>Manifest documents\<close>

text \<open>
  The parsed \<^verbatim>\<open>pyproject.toml\<close>, with the properties the source files read
  (the interfaces \<^verbatim>\<open>UvWorkspaceTomlContent\<close> and \<^verbatim>\<open>UvWorkspaceManifest\<close>, and the
  untyped manifest of the plugin). A table of string arrays is a list of pairs in
  the order of \<^verbatim>\<open>Object.entries\<close>.
\<close>

record Project =
  project_name :: "string option"
  project_version :: "tomlValue option"
  project_dependencies :: "string list option"
  project_optional_dependencies :: "(string \<times> string list) list option"

record Poetry =
  poetry_name :: "string option"
  poetry_version :: "tomlValue option"

record PyProject =
  project :: "Project option"
  tool_poetry :: "Poetry option"
  workspace_members :: "string list option"
  dependency_groups :: "(string \<times> string list) list option"

text \<open>
  File content. A text that the TOML parser accepts is identified with the document it
  parses to; a text it refuses is kept as it is.
\<close>

datatype 'd tomlText =
  Malformed string
  | Document 'd

text \<open>
  \<^verbatim>\<open>TOML.parse\<close> of the package \<^verbatim>\<open>@iarna/toml\<close> (an external library; \<^verbatim>\<open>parsePyProject\<close> of
  the plugin is the same parser): the document as plain JavaScript values, or the
  parser's exception.
\<close>

fun TOML_parse :: "'d tomlText \<Rightarrow> error + 'd" where
  "TOML_parse (Malformed s) = Inl (Error ''TomlError'')"
| "TOML_parse (Document d) = Inr d"

text \<open>
  The path arguments of \<^verbatim>\<open>replaceTomlValue\<close> that occur in the source:
  \<^verbatim>\<open>['project', 'version']\<close>, \<^verbatim>\<open>['project', 'dependencies', i]\<close>,
  \<^verbatim>\<open>['dependency-groups', g, i]\<close> and \<^verbatim>\<open>['package', i, 'version']\<close>.
\<close>

datatype selector =
  SelProjectVersion
  | SelProjectDependency nat
  | SelDependencyGroup string nat
  | SelPackageVersion nat

text \<open>Assignment to the property \<open>g\<close> of a table: the first pair with that key.\<close>

fun updateGroup :: "string \<Rightarrow> nat \<Rightarrow> string \<Rightarrow> (string \<times> string list) list
    \<Rightarrow> (string \<times> string list) list option" where
  "updateGroup g i v [] = None"
| "updateGroup g i v ((k, ds) # rest) =
     (if k = g then (if i < length ds then Some ((k, ds[i := v]) # rest) else None)
      else map_option (\<lambda>r. (k, ds) # r) (updateGroup g i v rest))"

text \<open>
  Modelled from the spec: \<^verbatim>\<open>replaceTomlValue\<close> (\<^verbatim>\<open>src/util/toml-edit.ts\<close>, not among the
  sources), the spec's \<^verbatim>\<open>applyMutation(text, fieldSelector, value) -> text\<close>: the text in
  which the field the selector names holds the new string and nothing else differs. It
  throws when the text does not parse or the path leads to no value; the callers catch
  that.
\<close>

definition pathNotFound :: error where
  "pathNotFound = Error ''path not found in object''"

fun replaceTomlValue :: "PyProject tomlText \<Rightarrow> selector \<Rightarrow> string \<Rightarrow> error + PyProject tomlText" where
  "replaceTomlValue (Malformed s) sel v = Inl (Error ''TomlError'')"
| "replaceTomlValue (Document d) SelProjectVersion v =
     (case project d of
        None \<Rightarrow> Inl pathNotFound
      | Some p \<Rightarrow>
          (case project_version p of
             None \<Rightarrow> Inl pathNotFound
           | Some _ \<Rightarrow> Inr (Document (d \<lparr> project := Some (p \<lparr> project_version := Some (TString v) \<rparr>) \<rparr>))))"
| "replaceTomlValue (Document d) (SelProjectDependency i) v =
     (case project d of
        None \<Rightarrow> Inl pathNotFound
      | Some p \<Rightarrow>
          (case project_dependencies p of
             None \<Rightarrow> Inl pathNotFound
           | Some ds \<Rightarrow>
               if i < length ds
               then Inr (Document (d \<lparr> project := Some (p \<lparr> project_dependencies := Some (ds[i := v]) \<rparr>) \<rparr>))
               else Inl pathNotFound))"
| "replaceTomlValue (Document d) (SelDependencyGroup g i) v =
     (case dependency_groups d of
        None \<Rightarrow> Inl pathNotFound
      | Some gs \<Rightarrow>
          (case updateGroup g i v gs of
             None \<Rightarrow> Inl pathNotFound
           | Some gs' \<Rightarrow> Inr (Document (d \<lparr> dependency_groups := Some gs' \<rparr>))))"
| "replaceTomlValue (Document d) (SelPackageVersion i) v = Inl pathNotFound"

section \<open>The manifest updater \<^verbatim>\<open>UvWorkspaceToml\<close>\<close>

text \<open>
  \<^verbatim>\<open>updateDependencyString\<close>. The regular expression \<^verbatim>\<open>/^([a-zA-Z0-9_-]+)(.*)/\<close> fails
  when the text does not start with a name character; otherwise the name is the longest
  leading run of name characters and the version specification is the rest of the line.
\<close>

definition updateDependencyString :: "VersionsMap option \<Rightarrow> string \<Rightarrow> string" where
  "updateDependencyString versionsMap dependency =
     (case versionsMap of
        None \<Rightarrow> dependency
      | Some vm \<Rightarrow>
          let packageName = takeWhile isNameChar dependency;
              versionSpec = restOfLine (dropWhile isNameChar dependency)
          in if packageName = [] then dependency
             else (case vm packageName of
                    None \<Rightarrow> dependency
                  | Some newVersion \<Rightarrow>
                      if str_includes versionSpec ''=='' then packageName @ ''=='' @ versionToString newVersion
                      else if str_includes versionSpec ''>='' then packageName @ ''>='' @ versionToString newVersion
                      else if str_includes versionSpec ''^'' then packageName @ ''^'' @ versionToString newVersion
                      else if str_includes versionSpec ''~'' then packageName @ ''~'' @ versionToString newVersion
                      else if trimIsEmpty versionSpec then packageName @ ''=='' @ versionToString newVersion
                      else packageName @ ''=='' @ versionToString newVersion))"

text \<open>
  The body of \<^verbatim>\<open>dependencies.forEach((dep, index) => ...)\<close>, shared by
  \<^verbatim>\<open>updateDependencies\<close> and \<^verbatim>\<open>updateDependencyGroups\<close>: the state is the processed
  content and the log; \<open>sel\<close> builds the path from the index.
\<close>

fun forEachDep :: "VersionsMap option \<Rightarrow> (nat \<Rightarrow> selector) \<Rightarrow> string \<Rightarrow> nat \<Rightarrow> string list
    \<Rightarrow> PyProject tomlText \<times> logEntry list \<Rightarrow> PyProject tomlText \<times> logEntry list" where
  "forEachDep vm sel msg index [] st = st"
| "forEachDep vm sel msg index (dep # deps) (processedContent, lg) =
     (let updatedDep = updateDependencyString vm dep
      in forEachDep vm sel msg (Suc index) deps
           (if updatedDep \<noteq> dep
            then (case replaceTomlValue processedContent (sel index) updatedDep of
                    Inr c \<Rightarrow> (c, lg)
                  | Inl e \<Rightarrow> (processedContent, lg @ [Warn (''Failed to update dependency '' @ dep @ msg)]))
            else (processedContent, lg)))"

definition updateDependencies :: "VersionsMap option \<Rightarrow> PyProject tomlText \<times> logEntry list \<Rightarrow> string list
    \<Rightarrow> PyProject tomlText \<times> logEntry list" where
  "updateDependencies vm st dependencies = forEachDep vm SelProjectDependency '':'' 0 dependencies st"

fun updateDependencyGroups :: "VersionsMap option \<Rightarrow> PyProject tomlText \<times> logEntry list
    \<Rightarrow> (string \<times> string list) list \<Rightarrow> PyProject tomlText \<times> logEntry list" where
  "updateDependencyGroups vm st [] = st"
| "updateDependencyGroups vm st ((groupName, dependencies) # groups) =
     updateDependencyGroups vm
       (forEachDep vm (SelDependencyGroup groupName) ('' in group '' @ groupName @ '':'') 0 dependencies st)
       groups"

text \<open>
  \<^verbatim>\<open>UvWorkspaceToml.updateContent\<close>. The parse and the version edit are outside any
  \<^verbatim>\<open>try\<close>, so their exceptions leave the function; the dependency edits are guarded.
\<close>

definition UvWorkspaceToml_updateContent :: "version \<Rightarrow> VersionsMap option \<Rightarrow> PyProject tomlText
    \<Rightarrow> error + PyProject tomlText \<times> logEntry list" where
  "UvWorkspaceToml_updateContent thisVersion versionsMap content =
     (case TOML_parse content of
        Inl e \<Rightarrow> Inl e
      | Inr parsed \<Rightarrow>
          (case (if truthy (case project parsed of None \<Rightarrow> None | Some p \<Rightarrow> project_version p)
                 then replaceTomlValue content SelProjectVersion (versionToString thisVersion)
                 else Inr content) of
             Inl e \<Rightarrow> Inl e
           | Inr c1 \<Rightarrow>
               let st2 = (case dependency_groups parsed of
                            Some gs \<Rightarrow> if versionsMap \<noteq> None then updateDependencyGroups versionsMap (c1, []) gs
                                       else (c1, [])
                          | None \<Rightarrow> (c1, []));
                   st3 = (case (case project parsed of None \<Rightarrow> None | Some p \<Rightarrow> project_dependencies p) of
                            Some ds \<Rightarrow> if versionsMap \<noteq> None then updateDependencies versionsMap st2 ds
                                       else st2
                          | None \<Rightarrow> st2)
               in Inr st3))"

section \<open>The lock-file updater \<^verbatim>\<open>UvLock\<close>\<close>

text \<open>
  An entry of the \<^verbatim>\<open>package\<close> array as the text of the lock file has it. The version
  is optional: an entry without one is what makes the guarded edit fail. \<open>lp_other\<close>
  stands for every other key of the entry.
\<close>

record UvLockPackage =
  lp_name :: string
  lp_version :: "string option"
  lp_other :: "(string \<times> string) list"

text \<open>The property \<^verbatim>\<open>package\<close>: missing, present but no array, or an array.\<close>

datatype 'p packageField =
  PackageMissing
  | PackageNotArray
  | PackageArray "'p list"

record UvLockContent =
  lock_version :: "int option"
  requires_python :: "string option"
  package :: "UvLockPackage packageField"

text \<open>
  A JavaScript value where the source expects a string (the properties \<^verbatim>\<open>name\<close> and
  \<^verbatim>\<open>version\<close> of the interface \<^verbatim>\<open>UvLockPackage\<close>, which the cast
  \<^verbatim>\<open>as UvLockContent\<close> does not check): a string, or the object in which the tagging
  parser wraps a string of the text. The positions such an object also carries are
  never read by the updater and are left out.
\<close>

datatype jsValue =
  JsString string
  | JsTagged string

text \<open>
  \<^verbatim>\<open>versionsMap.get(key)\<close>. The keys of the versions map are strings; an object is the
  same key as nothing but itself, so looking it up finds no entry.
\<close>

fun mapGet :: "VersionsMap \<Rightarrow> jsValue \<Rightarrow> version option" where
  "mapGet versionsMap (JsString s) = versionsMap s"
| "mapGet versionsMap (JsTagged s) = None"

text \<open>A value inside a template literal; an optional property may be \<^verbatim>\<open>undefined\<close>.\<close>

fun jsText :: "jsValue option \<Rightarrow> string" where
  "jsText None = ''undefined''"
| "jsText (Some (JsString s)) = s"
| "jsText (Some (JsTagged s)) = ''[object Object]''"

text \<open>An entry of the array \<^verbatim>\<open>data.package\<close> as the updater receives it from the parser.\<close>

record ParsedPackage =
  parsed_name :: jsValue
  parsed_version :: "jsValue option"

text \<open>
  Modelled from the spec: \<^verbatim>\<open>parseWith\<close> of \<^verbatim>\<open>src/util/toml-edit.ts\<close>, which is not among
  the sources (the spec's \<^verbatim>\<open>parse(text) -> ManifestModel\<close>). The updater calls it with the
  content alone, so it runs the default parser of that module, the tagging parser that
  \<^verbatim>\<open>replaceTomlValue\<close> finds its positions with: every string of the text comes back as an
  object that wraps the string, while tables and arrays of tables are plain objects and
  arrays. The result is the property \<^verbatim>\<open>package\<close> of the parsed data, the only one the
  updater reads, or the parser's exception.
\<close>

definition taggedPackage :: "UvLockPackage \<Rightarrow> ParsedPackage" where
  "taggedPackage p =
     \<lparr> parsed_name = JsTagged (lp_name p), parsed_version = map_option JsTagged (lp_version p) \<rparr>"

fun parseWith :: "UvLockContent tomlText \<Rightarrow> error + ParsedPackage packageField" where
  "parseWith (Malformed s) = Inl (Error ''TomlError'')"
| "parseWith (Document d) =
     Inr (case package d of
            PackageMissing \<Rightarrow> PackageMissing
          | PackageNotArray \<Rightarrow> PackageNotArray
          | PackageArray ps \<Rightarrow> PackageArray (map taggedPackage ps))"

text \<open>
  Modelled from the spec: \<^verbatim>\<open>replaceTomlValue\<close> on a lock document, with the path
  \<^verbatim>\<open>['package', i, 'version']\<close>: the version of entry \<open>i\<close> is replaced and nothing
  else; it throws when there is no such entry or the entry has no version.
\<close>

fun replaceTomlValue_lock :: "UvLockContent tomlText \<Rightarrow> selector \<Rightarrow> string
    \<Rightarrow> error + UvLockContent tomlText" where
  "replaceTomlValue_lock (Malformed s) sel v = Inl (Error ''TomlError'')"
| "replaceTomlValue_lock (Document d) (SelPackageVersion i) v =
     (case package d of
        PackageArray ps \<Rightarrow>
          if i < length ps
          then (case lp_version (ps ! i) of
                  None \<Rightarrow> Inl pathNotFound
                | Some _ \<Rightarrow> Inr (Document (d \<lparr> package := PackageArray (ps[i := (ps ! i) \<lparr> lp_version := Some v \<rparr>]) \<rparr>)))
          else Inl pathNotFound
      | _ \<Rightarrow> Inl pathNotFound)"
| "replaceTomlValue_lock (Document d) sel v = Inl pathNotFound"

text \<open>
  The body of \<^verbatim>\<open>data.package.forEach((pkg, index) => ...)\<close>: the state is the processed
  content, the flag \<^verbatim>\<open>modified\<close> and the log.
\<close>

fun forEachPackage :: "VersionsMap \<Rightarrow> nat \<Rightarrow> ParsedPackage list
    \<Rightarrow> UvLockContent tomlText \<times> bool \<times> logEntry list
    \<Rightarrow> UvLockContent tomlText \<times> bool \<times> logEntry list" where
  "forEachPackage versionsMap index [] st = st"
| "forEachPackage versionsMap index (pkg # pkgs) (processedContent, modified, lg) =
     forEachPackage versionsMap (Suc index) pkgs
       (case mapGet versionsMap (parsed_name pkg) of
          None \<Rightarrow> (processedContent, modified, lg)
        | Some newVersion \<Rightarrow>
            (let lg1 = lg @ [Info (''Updating '' @ jsText (Some (parsed_name pkg)) @ '' from '' @
                               jsText (parsed_version pkg) @ '' to '' @ versionToString newVersion)]
             in case replaceTomlValue_lock processedContent (SelPackageVersion index)
                       (versionToString newVersion) of
                  Inr c \<Rightarrow> (c, True, lg1)
                | Inl e \<Rightarrow> (processedContent, modified,
                            lg1 @ [Warn (''Failed to update version for '' @
                                         jsText (Some (parsed_name pkg)) @ '':'')])))"

text \<open>
  \<^verbatim>\<open>UvLock.updateContent\<close>. The result type has an error side so that "does not throw"
  can be stated; every exception the body can meet is caught inside it.
\<close>

definition UvLock_updateContent :: "VersionsMap \<Rightarrow> UvLockContent tomlText
    \<Rightarrow> error + UvLockContent tomlText \<times> logEntry list" where
  "UvLock_updateContent versionsMap content =
     (case parseWith content of
        Inl e \<Rightarrow> Inr (content, [Warn ''Invalid uv.lock file, cannot be parsed''])
      | Inr data_package \<Rightarrow>
          (case data_package of
             PackageArray ps \<Rightarrow>
               (case forEachPackage versionsMap 0 ps (content, False, []) of
                  (processedContent, modified, lg) \<Rightarrow>
                    Inr (processedContent,
                         if modified then lg
                         else lg @ [Warn ''No workspace packages found in uv.lock to update'']))
           | _ \<Rightarrow> Inr (content, [Warn ''No packages found in uv.lock''])))"

section \<open>The strategy \<^verbatim>\<open>UvWorkspace\<close> (\<^verbatim>\<open>src/strategies/uv-workspace.ts\<close>)\<close>

text \<open>
  The collaborators the strategy calls. A read of the repository resolves with the file,
  resolves with nothing (\<open>Inr None\<close>, a missing file) or throws (\<open>Inl\<close>). \<open>addPath\<close> is
  the method of the base strategy that prefixes the strategy's own path.
\<close>

record github =
  getFileContentsOnBranch :: "string \<Rightarrow> error + PyProject tomlText option"
  findFilesByGlobAndRef :: "string \<Rightarrow> error + string list"
  findFilesByFilenameAndRef :: "string \<Rightarrow> string \<Rightarrow> error + string list"
  addPath :: "string \<Rightarrow> string"

text \<open>The text of an exception inside a template literal.\<close>

fun errorText :: "error \<Rightarrow> string" where
  "errorText (ConfigurationError m) = ''ConfigurationError: '' @ m"
| "errorText (Error m) = ''Error: '' @ m"

text \<open>\<^verbatim>\<open>f.replace(sub, '')\<close>: the first occurrence of \<open>sub\<close> is removed.\<close>

fun removeFirst :: "string \<Rightarrow> string \<Rightarrow> string" where
  "removeFirst sub [] = []"
| "removeFirst sub (c # cs) =
     (if prefix sub (c # cs) then drop (length sub) (c # cs) else c # removeFirst sub cs)"

text \<open>\<^verbatim>\<open>Map.prototype.set\<close>: an existing key keeps its place and takes the new value.\<close>

fun mapSet :: "'k \<Rightarrow> 'v \<Rightarrow> ('k \<times> 'v) list \<Rightarrow> ('k \<times> 'v) list" where
  "mapSet k v [] = [(k, v)]"
| "mapSet k v ((k', v') # rest) = (if k' = k then (k, v) # rest else (k', v') # mapSet k v rest)"

text \<open>\<^verbatim>\<open>getContent\<close>: every exception of the read is caught and becomes \<^verbatim>\<open>null\<close>.\<close>

definition getContent :: "github \<Rightarrow> string \<Rightarrow> PyProject tomlText option" where
  "getContent gh path =
     (case getFileContentsOnBranch gh (addPath gh path) of
        Inl e \<Rightarrow> None
      | Inr r \<Rightarrow> r)"

definition expandWorkspaceMember :: "github \<Rightarrow> string \<Rightarrow> error + string list" where
  "expandWorkspaceMember gh pattern =
     (if \<not> str_includes pattern ''*'' then Inr [pattern]
      else case findFilesByGlobAndRef gh (pattern @ ''/pyproject.toml'') of
             Inr files \<Rightarrow> Inr (map (removeFirst ''/pyproject.toml'') files)
           | Inl e \<Rightarrow> Inl (Error (''Failed to expand workspace member pattern '' @ [CHR 0x27] @ pattern @
                                  [CHR 0x27] @ '': '' @ errorText e)))"

text \<open>
  The error thrown for a member without manifest:
  \<^verbatim>\<open>new Error(`Workspace member '${memberPath}' declared but pyproject.toml not found at ${manifestPath}`)\<close>.
\<close>

definition notFoundError :: "string \<Rightarrow> string \<Rightarrow> error" where
  "notFoundError memberPath mPath =
     Error (''Workspace member '' @ [CHR 0x27] @ memberPath @ [CHR 0x27] @
            '' declared but pyproject.toml not found at '' @ mPath)"

text \<open>The inner loop of \<^verbatim>\<open>parseMemberManifests\<close>, over the paths one member expands to.\<close>

fun parseMemberPaths :: "github \<Rightarrow> string list \<Rightarrow> (string \<times> PyProject) list
    \<Rightarrow> error + (string \<times> PyProject) list" where
  "parseMemberPaths gh [] memberManifests = Inr memberManifests"
| "parseMemberPaths gh (memberPath # rest) memberManifests =
     (let manifestPath = memberPath @ ''/pyproject.toml''
      in case getContent gh manifestPath of
           None \<Rightarrow> Inl (notFoundError memberPath manifestPath)
         | Some manifestContent \<Rightarrow>
             (case TOML_parse manifestContent of
                Inl e \<Rightarrow> Inl e
              | Inr manifest \<Rightarrow> parseMemberPaths gh rest (mapSet memberPath manifest memberManifests)))"

fun parseMemberManifests :: "github \<Rightarrow> string list \<Rightarrow> (string \<times> PyProject) list
    \<Rightarrow> error + (string \<times> PyProject) list" where
  "parseMemberManifests gh [] memberManifests = Inr memberManifests"
| "parseMemberManifests gh (member # members) memberManifests =
     (case expandWorkspaceMember gh member of
        Inl e \<Rightarrow> Inl e
      | Inr memberPaths \<Rightarrow>
          (case parseMemberPaths gh memberPaths memberManifests of
             Inl e \<Rightarrow> Inl e
           | Inr mm \<Rightarrow> parseMemberManifests gh members mm))"

text \<open>
  The second copy of the strategy among the sources (the file whose name is not known)
  differs in both functions: a failed expansion yields no path, and a member without
  manifest is logged and skipped.
\<close>

definition expandWorkspaceMember_lenient :: "github \<Rightarrow> string \<Rightarrow> string list \<times> logEntry list" where
  "expandWorkspaceMember_lenient gh pattern =
     (if \<not> str_includes pattern ''*'' then ([pattern], [])
      else let basePath = beforeChar CHR ''*'' pattern
           in case findFilesByFilenameAndRef gh ''pyproject.toml'' basePath of
                Inr files \<Rightarrow> (filter (prefix basePath) (map (removeFirst ''/pyproject.toml'') files), [])
              | Inl e \<Rightarrow> ([], [Warn (''Failed to expand workspace pattern '' @ pattern @ '':'')]))"

fun parseMemberPaths_lenient :: "github \<Rightarrow> string list \<Rightarrow> (string \<times> PyProject) list \<times> logEntry list
    \<Rightarrow> error + (string \<times> PyProject) list \<times> logEntry list" where
  "parseMemberPaths_lenient gh [] st = Inr st"
| "parseMemberPaths_lenient gh (memberPath # rest) (memberManifests, lg) =
     (let manifestPath = memberPath @ ''/pyproject.toml''
      in case getContent gh manifestPath of
           None \<Rightarrow> parseMemberPaths_lenient gh rest
                    (memberManifests,
                     lg @ [Warn (''Member '' @ memberPath @ '' declared but did not find pyproject.toml'')])
         | Some manifestContent \<Rightarrow>
             (case TOML_parse manifestContent of
                Inl e \<Rightarrow> Inl e
              | Inr manifest \<Rightarrow>
                  parseMemberPaths_lenient gh rest (mapSet memberPath manifest memberManifests, lg)))"

fun parseMemberManifests_lenient :: "github \<Rightarrow> string list \<Rightarrow> (string \<times> PyProject) list \<times> logEntry list
    \<Rightarrow> error + (string \<times> PyProject) list \<times> logEntry list" where
  "parseMemberManifests_lenient gh [] st = Inr st"
| "parseMemberManifests_lenient gh (member # members) (memberManifests, lg) =
     (case expandWorkspaceMember_lenient gh member of
        (memberPaths, lg1) \<Rightarrow>
          (case parseMemberPaths_lenient gh memberPaths (memberManifests, lg @ lg1) of
             Inl e \<Rightarrow> Inl e
           | Inr st \<Rightarrow> parseMemberManifests_lenient gh members st))"

text \<open>
  The versions map of \<^verbatim>\<open>buildUpdates\<close>: the root package, if it is named, and every named
  member are set to the one new version of the release.
\<close>

definition projectName :: "PyProject \<Rightarrow> string option" where
  "projectName m = (case project m of None \<Rightarrow> None | Some p \<Rightarrow> project_name p)"






section \<open>The plugin \<^verbatim>\<open>UvWorkspace\<close> (workspace plugin, file name not known)\<close>

record UvPackageInfo =
  pkg_path :: string
  pkg_name :: string
  pkg_version :: string
  manifestPath :: string
  manifestContent :: "PyProject tomlText"
  manifest :: PyProject

text \<open>
  A candidate pull request, as far as \<^verbatim>\<open>buildAllPackages\<close> reads it: its path, the
  version of its pull request, and the paths of its updates with their cached file
  contents, where they have any.
\<close>

record Candidate =
  cand_path :: string
  cand_version :: version
  cand_updates :: "(string \<times> PyProject tomlText option) list"

text \<open>
  The collaborators of the plugin: the read of the repository, which here throws for a
  missing file, and the function \<^verbatim>\<open>addPath(path, file)\<close> imported from the workspace
  module.
\<close>

record pluginGithub =
  readFile :: "string \<Rightarrow> error + PyProject tomlText"
  joinPath :: "string \<Rightarrow> string \<Rightarrow> string"

text \<open>\<^verbatim>\<open>a || b\<close> on optional properties.\<close>

definition orElse :: "tomlValue option \<Rightarrow> tomlValue option \<Rightarrow> tomlValue option" where
  "orElse a b = (if truthy a then a else b)"

definition orElseStr :: "string option \<Rightarrow> string option \<Rightarrow> string option" where
  "orElseStr a b = (if truthyStr a then a else b)"

definition cachedFileContents :: "Candidate option \<Rightarrow> string \<Rightarrow> PyProject tomlText option" where
  "cachedFileContents candidate path =
     (case candidate of
        None \<Rightarrow> None
      | Some c \<Rightarrow> (case find (\<lambda>u. fst u = path) (cand_updates c) of None \<Rightarrow> None | Some u \<Rightarrow> snd u))"

text \<open>
  The original content of the package: the cached contents of the candidate's update of
  the manifest path, or else the file read from the repository.
\<close>

definition readManifest :: "pluginGithub \<Rightarrow> Candidate list \<Rightarrow> string \<Rightarrow> error + PyProject tomlText" where
  "readManifest gh candidates path =
     (case cachedFileContents (find (\<lambda>c. cand_path c = path) candidates)
             (joinPath gh path ''pyproject.toml'') of
        Some c \<Rightarrow> Inr c
      | None \<Rightarrow> readFile gh (joinPath gh path ''pyproject.toml''))"

text \<open>\<^verbatim>\<open>manifest.project?.name || manifest.tool?.poetry?.name\<close>, and the same for the version.\<close>

definition manifestName :: "PyProject \<Rightarrow> string option" where
  "manifestName m =
     orElseStr (projectName m) (case tool_poetry m of None \<Rightarrow> None | Some t \<Rightarrow> poetry_name t)"

definition manifestVersion :: "PyProject \<Rightarrow> tomlValue option" where
  "manifestVersion m =
     orElse (case project m of None \<Rightarrow> None | Some p \<Rightarrow> project_version p)
            (case tool_poetry m of None \<Rightarrow> None | Some t \<Rightarrow> poetry_version t)"

text \<open>
  The loop \<^verbatim>\<open>for (const path of members)\<close> of \<^verbatim>\<open>buildAllPackages\<close>. The state is
  \<^verbatim>\<open>allPackages\<close>, \<^verbatim>\<open>candidatesByPackage\<close> and the log. \<^verbatim>\<open>parsePyProject\<close> is the TOML parser.
\<close>

fun buildAllPackages :: "pluginGithub \<Rightarrow> Candidate list \<Rightarrow> string list
    \<Rightarrow> UvPackageInfo list \<times> (string \<rightharpoonup> Candidate) \<times> logEntry list
    \<Rightarrow> error + UvPackageInfo list \<times> (string \<rightharpoonup> Candidate) \<times> logEntry list" where
  "buildAllPackages gh candidates [] st = Inr st"
| "buildAllPackages gh candidates (path # members) (allPackages, candidatesByPackage, lg) =
     (let mPath = joinPath gh path ''pyproject.toml'';
          lg1 = lg @ [Info (''looking for candidate with path: '' @ path)];
          candidate = find (\<lambda>c. cand_path c = path) candidates
      in case readManifest gh candidates path of
           Inl e \<Rightarrow> Inl e
         | Inr mContent \<Rightarrow>
             (case TOML_parse mContent of
                Inl e \<Rightarrow> Inl e
              | Inr m \<Rightarrow>
                  (case manifestName m of
                     None \<Rightarrow>
                       buildAllPackages gh candidates members
                         (allPackages, candidatesByPackage,
                          lg1 @ [Warn (''package manifest at '' @ mPath @
                                       '' is missing project.name or tool.poetry.name'')])
                   | Some packageName \<Rightarrow>
                       if packageName = []
                       then buildAllPackages gh candidates members
                              (allPackages, candidatesByPackage,
                               lg1 @ [Warn (''package manifest at '' @ mPath @
                                            '' is missing project.name or tool.poetry.name'')])
                       else
                         (let cbp = (case candidate of
                                       Some c \<Rightarrow> candidatesByPackage (packageName \<mapsto> c)
                                     | None \<Rightarrow> candidatesByPackage)
                          in if \<not> truthy (manifestVersion m)
                             then Inl (ConfigurationError (''package manifest at '' @ mPath @ '' is missing version''))
                             else (case manifestVersion m of
                                     Some (TString v) \<Rightarrow>
                                       buildAllPackages gh candidates members
                                         (allPackages @
                                            [\<lparr> pkg_path = path, pkg_name = packageName, pkg_version = v,
                                               manifestPath = mPath, manifestContent = mContent,
                                               manifest = m \<rparr>],
                                          cbp, lg1)
                                   | _ \<Rightarrow> Inl (ConfigurationError (''package manifest at '' @ mPath @
                                                                   '' has an invalid version'')))))))"


text \<open>
  \<^verbatim>\<open>extractPackageName\<close> of the plugin: the match of \<^verbatim>\<open>/^([a-zA-Z0-9_-]+)/\<close>, or the whole
  text when there is none.
\<close>

definition extractPackageName :: "string \<Rightarrow> string" where
  "extractPackageName dependency =
     (if takeWhile isNameChar dependency = [] then dependency else takeWhile isNameChar dependency)"

record DependencyNode =
  deps :: "string list"
  pkg_value :: UvPackageInfo

text \<open>
  The dependencies \<^verbatim>\<open>buildGraph\<close> collects for one package: \<^verbatim>\<open>project.dependencies\<close>, then
  every list of \<^verbatim>\<open>project.optional-dependencies\<close>, then every list of
  \<^verbatim>\<open>dependency-groups\<close>.
\<close>

definition allDeps :: "PyProject \<Rightarrow> string list" where
  "allDeps m =
     (case project m of
        None \<Rightarrow> []
      | Some p \<Rightarrow>
          (case project_dependencies p of None \<Rightarrow> [] | Some ds \<Rightarrow> ds) @
          (case project_optional_dependencies p of None \<Rightarrow> [] | Some gs \<Rightarrow> concat (map snd gs))) @
     (case dependency_groups m of None \<Rightarrow> [] | Some gs \<Rightarrow> concat (map snd gs))"

definition buildGraph :: "UvPackageInfo list \<Rightarrow> (string \<times> DependencyNode) list" where
  "buildGraph allPackages =
     (let workspacePackageNames = set (map pkg_name allPackages)
      in fold (\<lambda>packageInfo graph.
                 mapSet (pkg_name packageInfo)
                   \<lparr> deps = filter (\<lambda>dep. dep \<in> workspacePackageNames)
                              (map extractPackageName (allDeps (manifest packageInfo))),
                     pkg_value = packageInfo \<rparr>
                   graph)
              allPackages [])"

section \<open>The cascade computer\<close>

text \<open>
  Modelled from the spec: the node of the dependency graph (\<^verbatim>\<open>PackageNode\<close>), which the
  cascade works on. The cascade is run by the base class \<^verbatim>\<open>WorkspacePlugin\<close> of
  \<^verbatim>\<open>src/plugins/workspace.ts\<close>, which is not among the sources. The manifest handle of
  the spec is an opaque reference and is left out.
\<close>

record PackageNode =
  node_name :: string
  node_path :: string
  currentVersion :: version

text \<open>
  Modelled from the spec: a dependency graph (\<^verbatim>\<open>DependencyGraph\<close>) maps a package name to
  its node and the set of its outgoing edges. It is a list of nodes, each with the
  targets of its outgoing edges; the source of such an edge is the node itself.
\<close>

type_synonym DependencyGraph = "(PackageNode \<times> string list) list"

text \<open>
  Modelled from the spec: the graph that \<^verbatim>\<open>buildGraph\<close> returns, read as the dependency
  graph of the cascade. \<open>cur\<close> gives the parsed current version of a package.
\<close>

definition cascadeGraph :: "(UvPackageInfo \<Rightarrow> version) \<Rightarrow> (string \<times> DependencyNode) list
    \<Rightarrow> DependencyGraph" where
  "cascadeGraph cur graph =
     map (\<lambda>entry. (\<lparr> node_name = fst entry, node_path = pkg_path (pkg_value (snd entry)),
                       currentVersion = cur (pkg_value (snd entry)) \<rparr>,
                     deps (snd entry)))
         graph"

text \<open>
  The names of the nodes of a graph, and its edges, as a list and as a relation: from a
  package to a package it depends on.
\<close>

definition nodeNames :: "DependencyGraph \<Rightarrow> string list" where
  "nodeNames graph = map (\<lambda>entry. node_name (fst entry)) graph"

definition edgeList :: "DependencyGraph \<Rightarrow> (string \<times> string) list" where
  "edgeList graph = concat (map (\<lambda>entry. map (\<lambda>t. (node_name (fst entry), t)) (snd entry)) graph)"

definition edges :: "DependencyGraph \<Rightarrow> (string \<times> string) set" where
  "edges graph = set (edgeList graph)"

text \<open>
  Modelled from the spec: one pass of the fixed-point iteration of \<^verbatim>\<open>computeClosure\<close>. The
  pass scans all nodes; the state is the result and the names of the nodes resolved so
  far, and \<open>names\<close> holds the names of all nodes of the graph. In the words of the cycle
  policy, a node waits as long as a node it has an edge to is not yet resolved. A node
  that does not wait is resolved: it is added to the result, with the bump policy
  applied to its current version, if it is not in the result (the seed is, from the
  start) and has an outgoing edge to some package already present in the result.
\<close>

fun scanNodes :: "(version \<Rightarrow> version) \<Rightarrow> string list \<Rightarrow> DependencyGraph
    \<Rightarrow> VersionsMap \<times> string list \<Rightarrow> VersionsMap \<times> string list" where
  "scanNodes bumpPolicy names [] st = st"
| "scanNodes bumpPolicy names ((n, targets) # rest) (result, resolved) =
     scanNodes bumpPolicy names rest
       (if node_name n \<in> set resolved \<or> list_ex (\<lambda>t. t \<in> set names \<and> t \<notin> set resolved) targets
        then (result, resolved)
        else (if result (node_name n) = None \<and> list_ex (\<lambda>t. result t \<noteq> None) targets
              then result (node_name n \<mapsto> bumpPolicy (currentVersion n))
              else result,
              resolved @ [node_name n]))"

text \<open>Modelled from the spec: the nodes that still wait.\<close>

definition waiting :: "DependencyGraph \<Rightarrow> string list \<Rightarrow> string list" where
  "waiting graph resolved = filter (\<lambda>x. x \<notin> set resolved) (nodeNames graph)"

text \<open>
  Modelled from the spec: the members of the dependency cycles of a graph, the nodes
  from which a path of edges leads back to themselves, and the configuration error that
  names them.
\<close>

definition cycleMembers :: "DependencyGraph \<Rightarrow> string list" where
  "cycleMembers graph = filter (\<lambda>x. (x, x) \<in> (edges graph)\<^sup>+) (nodeNames graph)"

definition cycleError :: "string list \<Rightarrow> error" where
  "cycleError names = ConfigurationError (''dependency cycle:'' @ concat (map (\<lambda>n. '' '' @ n) names))"

text \<open>
  Modelled from the spec: the iteration to a fixed point and the cycle policy. Passes
  are repeated until no node waits: from then on a full pass adds no new entry, while a
  node that still waits may be added by a later pass. \<open>passes\<close> is the number of passes
  still permitted. When nodes still wait after the last permitted pass, the iteration
  has not terminated within the permitted number of passes: the nodes of a cycle wait
  for each other. The run then fails with the configuration error that names the cycle
  members.
\<close>

fun iteratePasses :: "nat \<Rightarrow> (version \<Rightarrow> version) \<Rightarrow> DependencyGraph \<Rightarrow> VersionsMap \<times> string list
    \<Rightarrow> error + VersionsMap" where
  "iteratePasses 0 bumpPolicy graph (result, resolved) =
     (if waiting graph resolved = [] then Inr result else Inl (cycleError (cycleMembers graph)))"
| "iteratePasses (Suc passes) bumpPolicy graph (result, resolved) =
     (if waiting graph resolved = [] then Inr result
      else iteratePasses passes bumpPolicy graph
             (scanNodes bumpPolicy (nodeNames graph) graph (result, resolved)))"

text \<open>
  Modelled from the spec: \<^verbatim>\<open>computeClosure(graph, seed, bumpPolicy)\<close>. Seed entries are taken
  as they are; the iteration is permitted as many passes as the graph has nodes.
\<close>

definition computeClosure :: "DependencyGraph \<Rightarrow> VersionsMap \<Rightarrow> (version \<Rightarrow> version) \<Rightarrow> error + VersionsMap" where
  "computeClosure graph seed bumpPolicy = iteratePasses (length graph) bumpPolicy graph (seed, [])"

section \<open>Notions of the properties and example inputs\<close>

text \<open>
  The operator style of a specifier in the spec's words: a specifier is a name followed
  by an optional version constraint suffix, and the style is the operator that opens
  the suffix (exact pin, lower bound, caret, tilde with or without an equals sign),
  none for a bare name, and unsupported for anything else.
\<close>

datatype operatorStyle = ExactPin | LowerBound | Caret | Tilde | Unconstrained | Unsupported

definition specStyle :: "string \<Rightarrow> operatorStyle" where
  "specStyle specifier =
     (let constraint = dropWhile (\<lambda>c. c = CHR '' '') (dropWhile isNameChar specifier)
      in if constraint = [] then Unconstrained
         else if prefix ''=='' constraint then ExactPin
         else if prefix ''>='' constraint then LowerBound
         else if prefix ''^'' constraint then Caret
         else if prefix ''~'' constraint then Tilde
         else Unsupported)"

definition v200 :: version where
  "v200 = \<lparr> major = 2, minor = 0, patch = 0, preRelease = None, build = None \<rparr>"

definition v110 :: version where
  "v110 = \<lparr> major = 1, minor = 1, patch = 0, preRelease = None, build = None \<rparr>"

definition lockEntry :: "string \<Rightarrow> string option \<Rightarrow> UvLockPackage" where
  "lockEntry n v = \<lparr> lp_name = n, lp_version = v, lp_other = [(''source'', ''{ editable = \".\" }'')] \<rparr>"

definition exampleLock :: UvLockContent where
  "exampleLock = \<lparr> lock_version = Some 1, requires_python = Some ''>=3.9'',
     package = PackageArray [lockEntry ''core'' (Some ''1.0.0''), lockEntry ''cli'' (Some ''1.0.0''),
                             lockEntry ''util'' (Some ''1.0.0'')] \<rparr>"

definition brokenLock :: UvLockContent where
  "brokenLock = \<lparr> lock_version = Some 1, requires_python = None,
     package = PackageArray [lockEntry ''core'' None, lockEntry ''cli'' (Some ''1.0.0'')] \<rparr>"



text \<open>
  What the manifest update is to do to a document: the project version, when it is
  truthy, becomes the version of the updater, and every specifier of
  \<^verbatim>\<open>project.dependencies\<close> and of the dependency groups is rewritten.
\<close>

definition rewrittenProject :: "version \<Rightarrow> VersionsMap option \<Rightarrow> Project \<Rightarrow> Project" where
  "rewrittenProject thisVersion versionsMap p =
     p \<lparr> project_version :=
           (if truthy (project_version p) then Some (TString (versionToString thisVersion))
            else project_version p),
         project_dependencies :=
           map_option (map (updateDependencyString versionsMap)) (project_dependencies p) \<rparr>"

definition rewrittenGroup :: "VersionsMap option \<Rightarrow> string \<times> string list \<Rightarrow> string \<times> string list" where
  "rewrittenGroup versionsMap g = (fst g, map (updateDependencyString versionsMap) (snd g))"

definition rewritten :: "version \<Rightarrow> VersionsMap option \<Rightarrow> PyProject \<Rightarrow> PyProject" where
  "rewritten thisVersion versionsMap d =
     d \<lparr> project := map_option (rewrittenProject thisVersion versionsMap) (project d),
         dependency_groups := map_option (map (rewrittenGroup versionsMap)) (dependency_groups d) \<rparr>"

text \<open>The specifiers the manifest updater reads.\<close>

definition updaterSpecifiers :: "PyProject \<Rightarrow> string list" where
  "updaterSpecifiers d =
     (case project d of
        None \<Rightarrow> []
      | Some p \<Rightarrow> (case project_dependencies p of None \<Rightarrow> [] | Some ds \<Rightarrow> ds)) @
     (case dependency_groups d of None \<Rightarrow> [] | Some gs \<Rightarrow> concat (map snd gs))"

definition utilManifest :: PyProject where
  "utilManifest =
     \<lparr> project = Some \<lparr> project_name = Some ''util'', project_version = Some (TString ''1.0.0''),
                        project_dependencies = Some [''requests>=2.0''],
                        project_optional_dependencies = None \<rparr>,
       tool_poetry = None, workspace_members = None, dependency_groups = None \<rparr>"





text \<open>The keys of the table \<^verbatim>\<open>dependency-groups\<close>; a TOML table has no key twice.\<close>

definition groupNames :: "PyProject \<Rightarrow> string list" where
  "groupNames d = (case dependency_groups d of None \<Rightarrow> [] | Some gs \<Rightarrow> map fst gs)"

text \<open>The fault \<^verbatim>\<open>buildAllPackages\<close> finds in a manifest, as the tail of its message.\<close>

definition versionFault :: "PyProject \<Rightarrow> string option" where
  "versionFault m =
     (if \<not> truthyStr (manifestName m) then None
      else if \<not> truthy (manifestVersion m) then Some '' is missing version''
      else (case manifestVersion m of
              Some (TString v) \<Rightarrow> None
            | _ \<Rightarrow> Some '' has an invalid version''))"

text \<open>The fault of the manifest at a path, when it can be read and parsed.\<close>

definition faultAt :: "pluginGithub \<Rightarrow> Candidate list \<Rightarrow> string \<Rightarrow> string option" where
  "faultAt gh candidates path =
     (case readManifest gh candidates path of
        Inl e \<Rightarrow> None
      | Inr c \<Rightarrow> (case TOML_parse c of Inl e \<Rightarrow> None | Inr m \<Rightarrow> versionFault m))"

text \<open>The manifest of a path can be read and parsed.\<close>

definition readable :: "pluginGithub \<Rightarrow> Candidate list \<Rightarrow> string \<Rightarrow> bool" where
  "readable gh candidates path =
     (case readManifest gh candidates path of
        Inl e \<Rightarrow> False
      | Inr c \<Rightarrow> (case TOML_parse c of Inl e \<Rightarrow> False | Inr m \<Rightarrow> True))"

text \<open>
  The package \<^verbatim>\<open>buildAllPackages\<close> pushes for a path: none when the manifest declares no
  name, and none when the path is faulty or cannot be read.
\<close>

definition packageAt :: "pluginGithub \<Rightarrow> Candidate list \<Rightarrow> string \<Rightarrow> UvPackageInfo option" where
  "packageAt gh candidates path =
     (case readManifest gh candidates path of
        Inl e \<Rightarrow> None
      | Inr mContent \<Rightarrow>
          (case TOML_parse mContent of
             Inl e \<Rightarrow> None
           | Inr m \<Rightarrow>
               (case (manifestName m, manifestVersion m) of
                  (Some packageName, Some (TString v)) \<Rightarrow>
                    if packageName \<noteq> [] \<and> v \<noteq> []
                    then Some \<lparr> pkg_path = path, pkg_name = packageName, pkg_version = v,
                                manifestPath = joinPath gh path ''pyproject.toml'',
                                manifestContent = mContent, manifest = m \<rparr>
                    else None
                | _ \<Rightarrow> None)))"

definition coreManifest :: PyProject where
  "coreManifest =
     \<lparr> project = Some \<lparr> project_name = Some ''core'', project_version = Some (TString ''1.0.0''),
                        project_dependencies = None, project_optional_dependencies = None \<rparr>,
       tool_poetry = None, workspace_members = None, dependency_groups = None \<rparr>"

definition numberedManifest :: PyProject where
  "numberedManifest =
     \<lparr> project = Some \<lparr> project_name = Some ''numbered'', project_version = Some (TInteger 1),
                        project_dependencies = None, project_optional_dependencies = None \<rparr>,
       tool_poetry = None, workspace_members = None, dependency_groups = None \<rparr>"

definition twoCores :: pluginGithub where
  "twoCores =
     \<lparr> readFile = (\<lambda>p. if p = ''packages/a/pyproject.toml'' then Inr (Document coreManifest)
                       else if p = ''packages/b/pyproject.toml'' then Inr (Document coreManifest)
                       else if p = ''packages/n/pyproject.toml'' then Inr (Document numberedManifest)
                       else Inl (Error ''FileNotFoundError'')),
       joinPath = (\<lambda>p f. if p = ''.'' then f else p @ ''/'' @ f) \<rparr>"

definition plainManifest :: "string \<Rightarrow> PyProject" where
  "plainManifest n =
     \<lparr> project = Some \<lparr> project_name = Some n, project_version = Some (TString ''1.0.0''),
                        project_dependencies = None, project_optional_dependencies = None \<rparr>,
       tool_poetry = None, workspace_members = None, dependency_groups = None \<rparr>"

definition missingMember :: github where
  "missingMember =
     \<lparr> getFileContentsOnBranch =
         (\<lambda>p. if p = ''packages/core/pyproject.toml'' then Inr (Some (Document (plainManifest ''core'')))
              else Inr None),
       findFilesByGlobAndRef = (\<lambda>g. Inr []),
       findFilesByFilenameAndRef = (\<lambda>f p. Inr []),
       addPath = (\<lambda>p. p) \<rparr>"

definition brokenTransport :: github where
  "brokenTransport =
     \<lparr> getFileContentsOnBranch = (\<lambda>p. Inl (Error ''ETIMEDOUT'')),
       findFilesByGlobAndRef = (\<lambda>g. Inr []),
       findFilesByFilenameAndRef = (\<lambda>f p. Inr []),
       addPath = (\<lambda>p. p) \<rparr>"

definition selfPackage :: UvPackageInfo where
  "selfPackage =
     \<lparr> pkg_path = ''packages/a'', pkg_name = ''a'', pkg_version = ''1.0.0'',
       manifestPath = ''packages/a/pyproject.toml'', manifestContent = Malformed [],
       manifest =
         \<lparr> project = Some \<lparr> project_name = Some ''a'', project_version = Some (TString ''1.0.0''),
                            project_dependencies = Some [''b>=1.0'', ''requests''],
                            project_optional_dependencies = Some [(''all'', [''a[cli]''])] \<rparr>,
           tool_poetry = None, workspace_members = None,
           dependency_groups = Some [(''dev'', [''b''])] \<rparr> \<rparr>"

definition otherPackage :: UvPackageInfo where
  "otherPackage =
     \<lparr> pkg_path = ''packages/b'', pkg_name = ''b'', pkg_version = ''1.0.0'',
       manifestPath = ''packages/b/pyproject.toml'', manifestContent = Malformed [],
       manifest = plainManifest ''b'' \<rparr>"

definition dependentPackage :: "string \<Rightarrow> string \<Rightarrow> UvPackageInfo" where
  "dependentPackage n d =
     \<lparr> pkg_path = ''packages/'' @ n, pkg_name = n, pkg_version = ''1.0.0'',
       manifestPath = ''packages/'' @ n @ ''/pyproject.toml'', manifestContent = Malformed [],
       manifest =
         \<lparr> project = Some \<lparr> project_name = Some n, project_version = Some (TString ''1.0.0''),
                            project_dependencies = Some [d],
                            project_optional_dependencies = None \<rparr>,
           tool_poetry = None, workspace_members = None, dependency_groups = None \<rparr> \<rparr>"

text \<open>The entry \<^verbatim>\<open>buildGraph\<close> sets for one package.\<close>

definition nodeOf :: "UvPackageInfo list \<Rightarrow> UvPackageInfo \<Rightarrow> string \<times> DependencyNode" where
  "nodeOf allPackages packageInfo =
     (pkg_name packageInfo,
      \<lparr> deps = filter (\<lambda>dep. dep \<in> set (map pkg_name allPackages))
                 (map extractPackageName (allDeps (manifest packageInfo))),
        pkg_value = packageInfo \<rparr>)"

text \<open>
  The invariant of the iteration, for a seed and a bump policy: seed entries are kept as
  they are; an entry that is not of the seed belongs to a resolved node; a resolved node
  has no edge to a node that is not resolved and, when it is not in the seed, is in the
  result, at the bumped version of its own current version, exactly when a target of one
  of its edges is; and only nodes are resolved.
\<close>

definition settled :: "VersionsMap \<Rightarrow> DependencyGraph \<Rightarrow> (version \<Rightarrow> version)
    \<Rightarrow> VersionsMap \<times> string list \<Rightarrow> bool" where
  "settled seed graph bp st =
     (case st of (result, resolved) \<Rightarrow>
        (\<forall>x v. seed x = Some v \<longrightarrow> result x = Some v) \<and>
        (\<forall>x. seed x = None \<and> result x \<noteq> None \<longrightarrow> x \<in> set resolved) \<and>
        (\<forall>entry \<in> set graph. node_name (fst entry) \<in> set resolved \<longrightarrow>
           (\<forall>t \<in> set (snd entry). t \<in> set (nodeNames graph) \<longrightarrow> t \<in> set resolved) \<and>
           (seed (node_name (fst entry)) = None \<longrightarrow>
              result (node_name (fst entry)) =
                (if \<exists>t \<in> set (snd entry). result t \<noteq> None
                 then Some (bp (currentVersion (fst entry))) else None))) \<and>
        set resolved \<subseteq> set (nodeNames graph))"

text \<open>Example versions, graphs and workspaces.\<close>

definition v100 :: version where
  "v100 = \<lparr> major = 1, minor = 0, patch = 0, preRelease = None, build = None \<rparr>"

definition v101 :: version where
  "v101 = \<lparr> major = 1, minor = 0, patch = 1, preRelease = None, build = None \<rparr>"

definition packageNode :: "string \<Rightarrow> PackageNode" where
  "packageNode n = \<lparr> node_name = n, node_path = ''packages/'' @ n, currentVersion = v100 \<rparr>"

definition cycleGraph :: DependencyGraph where
  "cycleGraph = [(packageNode ''A'', [''B'']), (packageNode ''B'', [''A''])]"

definition scenarioGraph :: DependencyGraph where
  "scenarioGraph = [(packageNode ''cli'', [''core'']), (packageNode ''core'', []), (packageNode ''util'', [])]"




section \<open>Properties\<close>

lemma prefix_single: "prefix [b] s \<Longrightarrow> b \<in> set s"
  by (auto simp: prefix_def)

lemma not_prefix_single: "b \<notin> set s \<Longrightarrow> \<not> prefix [b] s"
  by (auto simp: prefix_def)

lemma str_includes_single: "str_includes s [c] \<longleftrightarrow> c \<in> set s"
  by (induction s) auto

lemma str_includes_pair_absent: "b \<notin> set s \<Longrightarrow> \<not> str_includes s [a, b]"
  by (induction s) (auto simp: prefix_Cons dest: prefix_single)

lemma set_restOfLine: "set (restOfLine s) \<subseteq> set s"
  by (induction s) auto

lemma notin_restOfLine: "c \<notin> set s \<Longrightarrow> c \<notin> set (restOfLine s)"
  using set_restOfLine by blast

lemma name_split:
  assumes "\<forall>c \<in> set name. isNameChar c" and "sfx = [] \<or> \<not> isNameChar (hd sfx)"
  shows "takeWhile isNameChar (name @ sfx) = name" and "dropWhile isNameChar (name @ sfx) = sfx"
  using assms by (auto simp: takeWhile_eq_Nil_iff dropWhile_eq_self_iff)

lemma updateDependencyString_form:
  assumes "vm name = Some newVersion" and "name \<noteq> []" and "\<forall>c \<in> set name. isNameChar c"
    and "sfx = [] \<or> \<not> isNameChar (hd sfx)"
  shows "updateDependencyString (Some vm) (name @ sfx) =
           name @
           (if str_includes (restOfLine sfx) ''=='' then ''==''
            else if str_includes (restOfLine sfx) ''>='' then ''>=''
            else if str_includes (restOfLine sfx) ''^'' then ''^''
            else if str_includes (restOfLine sfx) ''~'' then ''~''
            else ''=='') @ versionToString newVersion"
  using assms(1,2) name_split[OF assms(3,4)]
  by (simp add: updateDependencyString_def)

lemma operator_exact: "str_includes (restOfLine (''=='' @ v)) ''==''"
  by (simp add: lineTerminatorAt_def)

lemma operator_lower:
  assumes "CHR ''='' \<notin> set v"
  shows "\<not> str_includes (restOfLine (''>='' @ v)) ''==''" and "str_includes (restOfLine (''>='' @ v)) ''>=''"
  using notin_restOfLine[OF assms]
  by (simp_all add: lineTerminatorAt_def str_includes_pair_absent not_prefix_single)

lemma operator_caret:
  assumes "CHR ''='' \<notin> set v"
  shows "\<not> str_includes (restOfLine (''^'' @ v)) ''==''" and "\<not> str_includes (restOfLine (''^'' @ v)) ''>=''"
    and "str_includes (restOfLine (''^'' @ v)) ''^''"
  using notin_restOfLine[OF assms]
  by (simp_all add: lineTerminatorAt_def str_includes_pair_absent)

lemma operator_tilde:
  assumes "CHR ''='' \<notin> set v" and "CHR ''^'' \<notin> set v"
  shows "\<not> str_includes (restOfLine (''~'' @ v)) ''==''" and "\<not> str_includes (restOfLine (''~'' @ v)) ''>=''"
    and "\<not> str_includes (restOfLine (''~'' @ v)) ''^''" and "str_includes (restOfLine (''~'' @ v)) ''~''"
  using notin_restOfLine[OF assms(1)] notin_restOfLine[OF assms(2)]
  by (simp_all add: lineTerminatorAt_def str_includes_pair_absent str_includes_single)

lemma operator_tilde_eq:
  assumes "CHR ''='' \<notin> set v" and "CHR ''^'' \<notin> set v"
  shows "\<not> str_includes (restOfLine (''~='' @ v)) ''==''" and "\<not> str_includes (restOfLine (''~='' @ v)) ''>=''"
    and "\<not> str_includes (restOfLine (''~='' @ v)) ''^''" and "str_includes (restOfLine (''~='' @ v)) ''~''"
  using notin_restOfLine[OF assms(1)] notin_restOfLine[OF assms(2)]
  by (simp_all add: lineTerminatorAt_def str_includes_pair_absent str_includes_single not_prefix_single)

text \<open>
  Claim C2, as amended. For a specifier whose extracted name is a key of the versions
  map, the rewrite is the name, an operator and the new version. The operator is
  decided by substring tests on the text after the name, in this order: \<^verbatim>\<open>==\<close>,
  \<^verbatim>\<open>>=\<close>, \<^verbatim>\<open>^\<close>, \<^verbatim>\<open>~\<close>, and \<^verbatim>\<open>==\<close> when none occurs. So a specifier with one
  constraint \<^verbatim>\<open>==w\<close>, \<^verbatim>\<open>>=v\<close>, \<^verbatim>\<open>^v\<close>, \<^verbatim>\<open>~v\<close> or \<^verbatim>\<open>~=v\<close> keeps its style when \<open>v\<close> holds
  no equals sign and no caret (\<^verbatim>\<open>~=\<close> becomes \<^verbatim>\<open>~\<close>), and a bare name becomes an exact
  pin.
\<close>

theorem updateDependencyString_style:
  assumes "vm name = Some newVersion" and "name \<noteq> []" and "\<forall>c \<in> set name. isNameChar c"
    and "CHR ''='' \<notin> set v" and "CHR ''^'' \<notin> set v"
  shows "updateDependencyString (Some vm) (name @ ''=='' @ w) = name @ ''=='' @ versionToString newVersion
       \<and> updateDependencyString (Some vm) (name @ ''>='' @ v) = name @ ''>='' @ versionToString newVersion
       \<and> updateDependencyString (Some vm) (name @ ''^'' @ v) = name @ ''^'' @ versionToString newVersion
       \<and> updateDependencyString (Some vm) (name @ ''~'' @ v) = name @ ''~'' @ versionToString newVersion
       \<and> updateDependencyString (Some vm) (name @ ''~='' @ v) = name @ ''~'' @ versionToString newVersion
       \<and> updateDependencyString (Some vm) name = name @ ''=='' @ versionToString newVersion
       \<and> ((sfx = [] \<or> \<not> isNameChar (hd sfx)) \<longrightarrow>
            updateDependencyString (Some vm) (name @ sfx) =
              name @
              (if str_includes (restOfLine sfx) ''=='' then ''==''
               else if str_includes (restOfLine sfx) ''>='' then ''>=''
               else if str_includes (restOfLine sfx) ''^'' then ''^''
               else if str_includes (restOfLine sfx) ''~'' then ''~''
               else ''=='') @ versionToString newVersion)"
proof -
  note form = updateDependencyString_form[of vm name newVersion, OF assms(1,2,3)]
  have 1: "updateDependencyString (Some vm) (name @ ''=='' @ w) = name @ ''=='' @ versionToString newVersion"
    using form[of "''=='' @ w"] operator_exact[of w] by (simp add: isNameChar_def)
  have 2: "updateDependencyString (Some vm) (name @ ''>='' @ v) = name @ ''>='' @ versionToString newVersion"
    using form[of "''>='' @ v"] operator_lower[OF assms(4)] by (simp add: isNameChar_def)
  have 3: "updateDependencyString (Some vm) (name @ ''^'' @ v) = name @ ''^'' @ versionToString newVersion"
    using form[of "''^'' @ v"] operator_caret[OF assms(4)] by (simp add: isNameChar_def)
  have 4: "updateDependencyString (Some vm) (name @ ''~'' @ v) = name @ ''~'' @ versionToString newVersion"
    using form[of "''~'' @ v"] operator_tilde[OF assms(4,5)] by (simp add: isNameChar_def)
  have 5: "updateDependencyString (Some vm) (name @ ''~='' @ v) = name @ ''~'' @ versionToString newVersion"
    using form[of "''~='' @ v"] operator_tilde_eq[OF assms(4,5)] by (simp add: isNameChar_def)
  have 6: "updateDependencyString (Some vm) name = name @ ''=='' @ versionToString newVersion"
    using form[of "[]"] by simp
  show ?thesis using 1 2 3 4 5 6 form[of sfx] by blast
qed

text \<open>
  Claim C2 as stated fails: a lower-bound specifier with an environment marker that
  holds \<^verbatim>\<open>==\<close> is rewritten to an exact pin.
\<close>

theorem updateDependencyString_style_counterexample:
  "updateDependencyString (Some [''core'' \<mapsto> v200]) ''core>=1.0.0; python_version==\"3.8\"'' = ''core==2.0.0''
   \<and> specStyle ''core>=1.0.0; python_version==\"3.8\"'' = LowerBound
   \<and> specStyle ''core==2.0.0'' = ExactPin"
  by (simp add: updateDependencyString_def specStyle_def isNameChar_def lineTerminatorAt_def
      versionToString_def v200_def showNat.simps digitChar_def)

theorem updateDependencyString_style_witness:
  "[''core'' \<mapsto> v200] ''core'' = Some v200 \<and> ''core'' \<noteq> [] \<and> list_all isNameChar ''core''
   \<and> CHR ''='' \<notin> set ''1.0.0'' \<and> CHR ''^'' \<notin> set ''1.0.0''
   \<and> updateDependencyString (Some [''core'' \<mapsto> v200]) ''core>=1.0.0'' = ''core>=2.0.0''
   \<and> updateDependencyString (Some [''core'' \<mapsto> v200]) ''core~=1.0.0'' = ''core~2.0.0''
   \<and> (\<not> isNameChar (hd ''<2.0.0'') \<and> updateDependencyString (Some [''core'' \<mapsto> v200]) ''core<2.0.0'' = ''core==2.0.0'')"
  using updateDependencyString_style[where vm = "[''core'' \<mapsto> v200]" and name = "''core''"
      and newVersion = v200 and v = "''1.0.0''" and w = "''1.0.0''" and sfx = "''<2.0.0''"]
  by (simp add: isNameChar_def lineTerminatorAt_def versionToString_def v200_def showNat.simps digitChar_def)

lemma forEachPackage_tagged: "forEachPackage vm index (map taggedPackage ps) st = st"
proof (induction ps arbitrary: index st)
  case Nil
  show ?case by simp
next
  case (Cons p ps)
  obtain c m lg where st: "st = (c, m, lg)" by (cases st)
  show ?case unfolding st using Cons.IH by (simp add: taggedPackage_def)
qed

text \<open>
  The loop body on an entry whose name is a string and a key: the edit is guarded, so
  when \<^verbatim>\<open>replaceTomlValue\<close> throws, the content and the flag stay as they are and a
  warning is logged; when it returns, its text is the processed content.
\<close>

lemma forEachPackage_edit_fails:
  assumes "mapGet vm (parsed_name pkg) = Some nv"
    and "replaceTomlValue_lock c (SelPackageVersion index) (versionToString nv) = Inl e"
  shows "forEachPackage vm index [pkg] (c, m, lg) =
           (c, m, lg @ [Info (''Updating '' @ jsText (Some (parsed_name pkg)) @ '' from '' @
                              jsText (parsed_version pkg) @ '' to '' @ versionToString nv),
                        Warn (''Failed to update version for '' @ jsText (Some (parsed_name pkg)) @ '':'')])"
  using assms by simp

lemma forEachPackage_edit_returns:
  assumes "mapGet vm (parsed_name pkg) = Some nv"
    and "replaceTomlValue_lock c (SelPackageVersion index) (versionToString nv) = Inr c'"
  shows "forEachPackage vm index [pkg] (c, m, lg) =
           (c', True, lg @ [Info (''Updating '' @ jsText (Some (parsed_name pkg)) @ '' from '' @
                                  jsText (parsed_version pkg) @ '' to '' @ versionToString nv)])"
  using assms by simp

text \<open>
  Claim C3, at the lock document that lists core, cli and util at 1.0.0 and the versions
  map that holds core at 1.1.0. The claim has the version of the entry of core changed
  and no warning. The updater returns the content unchanged, the entry of core
  included, and warns that no workspace package was found: the name it looks up is the
  object the tagging parser returns for the name of the entry, and no object is a key of
  the versions map.
\<close>

theorem UvLock_updateContent_entry_unchanged:
  "UvLock_updateContent [''core'' \<mapsto> v110] (Document exampleLock) =
     Inr (Document exampleLock, [Warn ''No workspace packages found in uv.lock to update''])
   \<and> package exampleLock =
       PackageArray [lockEntry ''core'' (Some ''1.0.0''), lockEntry ''cli'' (Some ''1.0.0''),
                     lockEntry ''util'' (Some ''1.0.0'')]
   \<and> UvLock_updateContent [''core'' \<mapsto> v110] (Document exampleLock) \<noteq>
       Inr (Document (exampleLock \<lparr> package := PackageArray
              [lockEntry ''core'' (Some ''1.1.0''), lockEntry ''cli'' (Some ''1.0.0''),
               lockEntry ''util'' (Some ''1.0.0'')] \<rparr>),
            [Info ''Updating core from 1.0.0 to 1.1.0''])"
  by (simp add: UvLock_updateContent_def exampleLock_def lockEntry_def taggedPackage_def)

text \<open>
  Claim C10. \<^verbatim>\<open>UvLock.updateContent\<close> returns for every versions map and every content,
  and never throws; what it returns is the content it was given, and what it logs is one
  warning. When the content does not parse the warning says so; when the document has
  no \<^verbatim>\<open>package\<close> array the warning says that no packages were found; and when it has one,
  no entry is edited (no name the parser returns is a key of the versions map, so the
  guarded edit is not reached and cannot fail) and the warning says that no workspace
  package was found.
\<close>

theorem UvLock_updateContent_total:
  "(\<exists>w. UvLock_updateContent vm content = Inr (content, [Warn w]))
   \<and> (\<forall>e. parseWith content = Inl e \<longrightarrow>
         UvLock_updateContent vm content = Inr (content, [Warn ''Invalid uv.lock file, cannot be parsed'']))
   \<and> (\<forall>d. content = Document d \<and> (package d = PackageMissing \<or> package d = PackageNotArray) \<longrightarrow>
         UvLock_updateContent vm content = Inr (content, [Warn ''No packages found in uv.lock'']))
   \<and> (\<forall>d ps. content = Document d \<and> package d = PackageArray ps \<longrightarrow>
         UvLock_updateContent vm content =
           Inr (content, [Warn ''No workspace packages found in uv.lock to update'']))"
proof -
  have 2: "\<forall>e. parseWith content = Inl e \<longrightarrow>
         UvLock_updateContent vm content = Inr (content, [Warn ''Invalid uv.lock file, cannot be parsed''])"
    by (simp add: UvLock_updateContent_def)
  have 3: "\<forall>d. content = Document d \<and> (package d = PackageMissing \<or> package d = PackageNotArray) \<longrightarrow>
         UvLock_updateContent vm content = Inr (content, [Warn ''No packages found in uv.lock''])"
    by (auto simp: UvLock_updateContent_def)
  have 4: "\<forall>d ps. content = Document d \<and> package d = PackageArray ps \<longrightarrow>
         UvLock_updateContent vm content =
           Inr (content, [Warn ''No workspace packages found in uv.lock to update''])"
    by (simp add: UvLock_updateContent_def forEachPackage_tagged)
  have 1: "\<exists>w. UvLock_updateContent vm content = Inr (content, [Warn w])"
  proof (cases content)
    case (Malformed s)
    then show ?thesis using 2 by simp
  next
    case (Document d)
    then show ?thesis using 3 4 by (cases "package d") simp_all
  qed
  show ?thesis using 1 2 3 4 by blast
qed

theorem UvLock_updateContent_total_witness:
  "UvLock_updateContent [''core'' \<mapsto> v110] (Malformed ''[[package'') =
       Inr (Malformed ''[[package'', [Warn ''Invalid uv.lock file, cannot be parsed''])
   \<and> UvLock_updateContent [''core'' \<mapsto> v110] (Document (exampleLock \<lparr> package := PackageMissing \<rparr>)) =
       Inr (Document (exampleLock \<lparr> package := PackageMissing \<rparr>), [Warn ''No packages found in uv.lock''])
   \<and> UvLock_updateContent [''core'' \<mapsto> v110] (Document brokenLock) =
       Inr (Document brokenLock, [Warn ''No workspace packages found in uv.lock to update''])"
  using UvLock_updateContent_total[of "[''core'' \<mapsto> v110]" "Malformed ''[[package''"]
    UvLock_updateContent_total[of "[''core'' \<mapsto> v110]" "Document (exampleLock \<lparr> package := PackageMissing \<rparr>)"]
    UvLock_updateContent_total[of "[''core'' \<mapsto> v110]" "Document brokenLock"]
  by (simp add: brokenLock_def)









lemma updateDependencyString_None [simp]: "updateDependencyString None dep = dep"
  by (simp add: updateDependencyString_def)



lemma updateDependencyString_unchanged:
  "takeWhile isNameChar dep = [] \<or> vm (takeWhile isNameChar dep) = None \<Longrightarrow>
   updateDependencyString (Some vm) dep = dep"
  by (auto simp: updateDependencyString_def Let_def)




lemma forEachDep_project:
  assumes "project d = Some p" and "project_dependencies p = Some (earlier @ later)" and "index = length earlier"
  shows "forEachDep vmo SelProjectDependency msg index later (Document d, lg) =
         (Document (d \<lparr> project := Some (p \<lparr> project_dependencies :=
              Some (earlier @ map (updateDependencyString vmo) later) \<rparr>) \<rparr>), lg)"
  using assms
proof (induction later arbitrary: d p earlier index)
  case Nil
  then show ?case by simp
next
  case (Cons dep later)
  let ?f = "updateDependencyString vmo"
  let ?p' = "p \<lparr> project_dependencies := Some ((earlier @ [?f dep]) @ later) \<rparr>"
  let ?d' = "d \<lparr> project := Some ?p' \<rparr>"
  have r: "replaceTomlValue (Document d) (SelProjectDependency index) (?f dep) = Inr (Document ?d')"
    using Cons.prems by simp
  have same: "?f dep = dep \<Longrightarrow> ?d' = d" using Cons.prems by simp
  have st: "forEachDep vmo SelProjectDependency msg index (dep # later) (Document d, lg) =
            forEachDep vmo SelProjectDependency msg (Suc index) later (Document ?d', lg)"
    using r same by (simp add: Let_def)
  have a: "project ?d' = Some ?p'" "project_dependencies ?p' = Some ((earlier @ [?f dep]) @ later)"
    "Suc index = length (earlier @ [?f dep])"
    using Cons.prems by simp_all
  show ?case unfolding st Cons.IH[OF a] by simp
qed

lemma updateGroup_at:
  assumes "g \<notin> fst ` set pre" and "i < length ds"
  shows "updateGroup g i v (pre @ (g, ds) # post) = Some (pre @ (g, ds[i := v]) # post)"
  using assms by (induction pre) auto

lemma forEachDep_group:
  assumes "dependency_groups d = Some (pre @ (g, earlier @ later) # post)" and "g \<notin> fst ` set pre"
    and "index = length earlier"
  shows "forEachDep vmo (SelDependencyGroup g) msg index later (Document d, lg) =
         (Document (d \<lparr> dependency_groups :=
              Some (pre @ (g, earlier @ map (updateDependencyString vmo) later) # post) \<rparr>), lg)"
  using assms
proof (induction later arbitrary: d earlier index)
  case Nil
  then show ?case by simp
next
  case (Cons dep later)
  let ?f = "updateDependencyString vmo"
  let ?d' = "d \<lparr> dependency_groups := Some (pre @ (g, (earlier @ [?f dep]) @ later) # post) \<rparr>"
  have u: "updateGroup g index (?f dep) (pre @ (g, earlier @ dep # later) # post) =
           Some (pre @ (g, (earlier @ [?f dep]) @ later) # post)"
    using updateGroup_at[OF Cons.prems(2), of index "earlier @ dep # later" "?f dep" post] Cons.prems(3)
    by simp
  have r: "replaceTomlValue (Document d) (SelDependencyGroup g index) (?f dep) = Inr (Document ?d')"
    using Cons.prems(1) u by simp
  have same: "?f dep = dep \<Longrightarrow> ?d' = d" using Cons.prems by simp
  have st: "forEachDep vmo (SelDependencyGroup g) msg index (dep # later) (Document d, lg) =
            forEachDep vmo (SelDependencyGroup g) msg (Suc index) later (Document ?d', lg)"
    using r same by (simp add: Let_def)
  have a: "dependency_groups ?d' = Some (pre @ (g, (earlier @ [?f dep]) @ later) # post)"
    "Suc index = length (earlier @ [?f dep])"
    using Cons.prems by simp_all
  show ?case unfolding st Cons.IH[OF a(1) Cons.prems(2) a(2)] by simp
qed

lemma updateDependencyGroups_all:
  assumes "dependency_groups d = Some (pre @ groups)" and "distinct (map fst (pre @ groups))"
  shows "updateDependencyGroups vmo (Document d, lg) groups =
         (Document (d \<lparr> dependency_groups := Some (pre @ map (rewrittenGroup vmo) groups) \<rparr>), lg)"
  using assms
proof (induction groups arbitrary: d pre)
  case Nil
  then show ?case by simp
next
  case (Cons grp groups)
  obtain g ds where grp: "grp = (g, ds)" by (cases grp)
  let ?grp' = "(g, map (updateDependencyString vmo) ds)"
  let ?d' = "d \<lparr> dependency_groups := Some (pre @ ?grp' # groups) \<rparr>"
  have notin: "g \<notin> fst ` set pre" using Cons.prems(2) grp by auto
  have fe: "forEachDep vmo (SelDependencyGroup g) ('' in group '' @ g @ '':'') 0 ds (Document d, lg) =
            (Document ?d', lg)"
    using forEachDep_group[of d pre g "[]" ds groups 0 vmo] Cons.prems(1) grp notin by simp
  have a: "dependency_groups ?d' = Some ((pre @ [?grp']) @ groups)"
    "distinct (map fst ((pre @ [?grp']) @ groups))"
    using Cons.prems grp by simp_all
  show ?case
    unfolding grp updateDependencyGroups.simps fe Cons.IH[OF a]
    by (simp add: rewrittenGroup_def)
qed

lemma updateContent_Document:
  assumes "distinct (groupNames d)"
  shows "UvWorkspaceToml_updateContent thisVersion vmo (Document d) =
         Inr (Document (rewritten thisVersion vmo d), [])"
proof -
  let ?v = "versionToString thisVersion"
  define d1 where "d1 = (case project d of
       None \<Rightarrow> d
     | Some p \<Rightarrow> if truthy (project_version p)
                 then d \<lparr> project := Some (p \<lparr> project_version := Some (TString ?v) \<rparr>) \<rparr> else d)"
  have s1: "(if truthy (case project d of None \<Rightarrow> None | Some p \<Rightarrow> project_version p)
             then replaceTomlValue (Document d) SelProjectVersion ?v
             else Inr (Document d)) = Inr (Document d1)"
    by (cases "project d"; cases "project_version (the (project d))") (auto simp: d1_def)
  have g1: "dependency_groups d1 = dependency_groups d"
    by (simp add: d1_def split: option.splits)
  define d2 where "d2 = d1 \<lparr> dependency_groups := map_option (map (rewrittenGroup vmo)) (dependency_groups d) \<rparr>"
  have s2: "(case dependency_groups d of
               Some gs \<Rightarrow> if vmo \<noteq> None then updateDependencyGroups vmo (Document d1, []) gs
                          else (Document d1, [])
             | None \<Rightarrow> (Document d1, [])) = (Document d2, [])"
  proof (cases "dependency_groups d")
    case None
    then show ?thesis using g1 by (simp add: d2_def)
  next
    case (Some gs)
    have id: "vmo = None \<Longrightarrow> map (rewrittenGroup vmo) gs = gs"
      by (simp add: rewrittenGroup_def map_idI)
    have "updateDependencyGroups vmo (Document d1, []) gs =
          (Document (d1 \<lparr> dependency_groups := Some ([] @ map (rewrittenGroup vmo) gs) \<rparr>), [])"
      using updateDependencyGroups_all[of d1 "[]" gs vmo "[]"] g1 Some assms
      by (simp add: groupNames_def)
    then show ?thesis using Some id g1 by (cases "vmo = None") (simp_all add: d2_def)
  qed
  have p2: "project d2 = project d1" by (simp add: d2_def)
  have pd1: "(case project d1 of None \<Rightarrow> None | Some p \<Rightarrow> project_dependencies p) =
             (case project d of None \<Rightarrow> None | Some p \<Rightarrow> project_dependencies p)"
    by (simp add: d1_def split: option.splits)
  have s3: "(case (case project d of None \<Rightarrow> None | Some p \<Rightarrow> project_dependencies p) of
               Some ds \<Rightarrow> if vmo \<noteq> None then updateDependencies vmo (Document d2, []) ds
                          else (Document d2, [])
             | None \<Rightarrow> (Document d2, [])) = (Document (rewritten thisVersion vmo d), [])"
  proof (cases "project d")
    case None
    then show ?thesis by (simp add: d2_def d1_def rewritten_def)
  next
    case (Some p)
    show ?thesis
    proof (cases "project_dependencies p")
      case None
      then show ?thesis using Some
        by (simp add: d2_def d1_def rewritten_def rewrittenProject_def)
    next
      case (Some ds)
      obtain p1 where p1: "project d2 = Some p1" "project_dependencies p1 = Some ds"
        "p1 = (if truthy (project_version p) then p \<lparr> project_version := Some (TString ?v) \<rparr> else p)"
        using \<open>project d = Some p\<close> Some by (simp add: d2_def d1_def)
      have id: "vmo = None \<Longrightarrow> map (updateDependencyString vmo) ds = ds"
        by (simp add: map_idI)
      have "updateDependencies vmo (Document d2, []) ds =
            (Document (d2 \<lparr> project := Some (p1 \<lparr> project_dependencies :=
                Some ([] @ map (updateDependencyString vmo) ds) \<rparr>) \<rparr>), [])"
        unfolding updateDependencies_def
        using forEachDep_project[of d2 p1 "[]" ds 0 vmo "'':''" "[]"] p1 by simp
      then show ?thesis using Some \<open>project d = Some p\<close> p1 id
        by (cases "vmo = None") (simp_all add: d2_def d1_def rewritten_def rewrittenProject_def)
    qed
  qed
  show ?thesis
    unfolding UvWorkspaceToml_updateContent_def
    by (simp add: s1 s2 s3 Let_def)
qed










lemma updateDependencyString_no_key:
  assumes "\<forall>vm. versionsMap = Some vm \<longrightarrow> vm (extractPackageName dep) = None"
  shows "updateDependencyString versionsMap dep = dep"
proof (cases versionsMap)
  case None
  then show ?thesis by simp
next
  case (Some vm)
  then have "takeWhile isNameChar dep = [] \<or> vm (takeWhile isNameChar dep) = None"
    using assms by (auto simp: extractPackageName_def split: if_splits)
  then show ?thesis unfolding Some by (rule updateDependencyString_unchanged)
qed

lemma updaterSpecifiers_allDeps: "set (updaterSpecifiers d) \<subseteq> set (allDeps d)"
  by (auto simp: updaterSpecifiers_def allDeps_def split: option.splits)

text \<open>
  Claim C9, as amended. When no dependency specifier of the manifest names a key of the
  versions map, the update leaves every specifier as it is; the project version, when it
  is present and truthy, is still set to the version of the updater, whatever the name
  of the package. A manifest without such a version is returned unchanged.
\<close>

theorem updateContent_no_key:
  assumes "distinct (groupNames d)"
    and "\<forall>vm dep. versionsMap = Some vm \<and> dep \<in> set (allDeps d) \<longrightarrow> vm (extractPackageName dep) = None"
  shows "UvWorkspaceToml_updateContent thisVersion versionsMap (Document d) =
           Inr (Document (d \<lparr> project :=
                  map_option (\<lambda>p. p \<lparr> project_version :=
                      (if truthy (project_version p) then Some (TString (versionToString thisVersion))
                       else project_version p) \<rparr>) (project d) \<rparr>), [])
       \<and> (\<not> truthy (case project d of None \<Rightarrow> None | Some p \<Rightarrow> project_version p) \<longrightarrow>
            UvWorkspaceToml_updateContent thisVersion versionsMap (Document d) = Inr (Document d, []))"
proof -
  have unchanged: "updateDependencyString versionsMap dep = dep" if "dep \<in> set (updaterSpecifiers d)" for dep
    using that assms(2) updaterSpecifiers_allDeps[of d] by (intro updateDependencyString_no_key) blast
  have pd: "map (updateDependencyString versionsMap) ds = ds"
    if "project d = Some p" "project_dependencies p = Some ds" for p ds
    using that unchanged by (intro map_idI) (simp add: updaterSpecifiers_def)
  have gd: "map (rewrittenGroup versionsMap) gs = gs" if "dependency_groups d = Some gs" for gs
  proof (rule map_idI)
    fix g assume "g \<in> set gs"
    then have "\<forall>dep \<in> set (snd g). updateDependencyString versionsMap dep = dep"
      using that unchanged by (auto simp: updaterSpecifiers_def split: option.splits)
    then show "rewrittenGroup versionsMap g = g" by (simp add: rewrittenGroup_def map_idI)
  qed
  have r: "rewritten thisVersion versionsMap d =
           d \<lparr> project := map_option (\<lambda>p. p \<lparr> project_version :=
                      (if truthy (project_version p) then Some (TString (versionToString thisVersion))
                       else project_version p) \<rparr>) (project d) \<rparr>"
    using pd gd
    by (cases "project d"; cases "dependency_groups d"; cases "project_dependencies (the (project d))")
       (simp_all add: rewritten_def rewrittenProject_def)
  have u: "d \<lparr> project := map_option (\<lambda>p. p \<lparr> project_version :=
                      (if truthy (project_version p) then Some (TString (versionToString thisVersion))
                       else project_version p) \<rparr>) (project d) \<rparr> = d"
    if "\<not> truthy (case project d of None \<Rightarrow> None | Some p \<Rightarrow> project_version p)"
    using that by (cases "project d") simp_all
  show ?thesis using updateContent_Document[OF assms(1), of thisVersion versionsMap] r u by simp
qed

text \<open>
  Claim C9 as stated fails: the package \<^verbatim>\<open>util\<close> is no key of the versions map and
  depends on no key, and its version field is rewritten all the same.
\<close>

theorem updateContent_no_key_counterexample:
  "[''core'' \<mapsto> v110] ''util'' = None
   \<and> map extractPackageName (allDeps utilManifest) = [''requests'']
   \<and> [''core'' \<mapsto> v110] ''requests'' = None
   \<and> UvWorkspaceToml_updateContent v110 (Some [''core'' \<mapsto> v110]) (Document utilManifest) =
       Inr (Document (utilManifest \<lparr> project := Some \<lparr> project_name = Some ''util'',
                        project_version = Some (TString ''1.1.0''),
                        project_dependencies = Some [''requests>=2.0''],
                        project_optional_dependencies = None \<rparr> \<rparr>), [])
   \<and> UvWorkspaceToml_updateContent v110 (Some [''core'' \<mapsto> v110]) (Document utilManifest) \<noteq>
       Inr (Document utilManifest, [])"
  by (simp add: UvWorkspaceToml_updateContent_def utilManifest_def updateDependencies_def
      updateDependencyString_def extractPackageName_def allDeps_def isNameChar_def lineTerminatorAt_def
      versionToString_def v110_def showNat.simps digitChar_def)

theorem updateContent_no_key_witness:
  "distinct (groupNames utilManifest)
   \<and> UvWorkspaceToml_updateContent v110 (Some [''core'' \<mapsto> v110]) (Document utilManifest) =
       Inr (Document (utilManifest \<lparr> project := Some \<lparr> project_name = Some ''util'',
                        project_version = Some (TString ''1.1.0''),
                        project_dependencies = Some [''requests>=2.0''],
                        project_optional_dependencies = None \<rparr> \<rparr>), [])"
proof -
  have g: "distinct (groupNames utilManifest)" by (simp add: groupNames_def utilManifest_def)
  have h: "\<forall>vm dep. Some [''core'' \<mapsto> v110] = Some vm \<and> dep \<in> set (allDeps utilManifest) \<longrightarrow>
             vm (extractPackageName dep) = None"
    by (auto simp: allDeps_def utilManifest_def extractPackageName_def isNameChar_def)
  from updateContent_no_key[OF g h, of v110] g show ?thesis
    by (simp add: utilManifest_def versionToString_def v110_def showNat.simps digitChar_def)
qed

lemma buildAllPackages_ok_step:
  assumes "readable gh cands path" and "faultAt gh cands path = None"
  shows "\<exists>st'. buildAllPackages gh cands (path # members) st = buildAllPackages gh cands members st'"
proof -
  obtain c m where c: "readManifest gh cands path = Inr c" and m: "TOML_parse c = Inr m"
    using assms(1) by (auto simp: readable_def split: sum.splits)
  have f: "versionFault m = None" using assms(2) c m by (simp add: faultAt_def)
  obtain a b l where st: "st = (a, b, l)" by (cases st)
  show ?thesis
  proof (cases "truthyStr (manifestName m)")
    case False
    then show ?thesis unfolding st using c m
      by (cases "manifestName m") (auto simp: Let_def)
  next
    case True
    then obtain n where n: "manifestName m = Some n" "n \<noteq> []" by (cases "manifestName m") auto
    from f True obtain v where v: "manifestVersion m = Some (TString v)" "truthy (manifestVersion m)"
      by (auto simp: versionFault_def split: if_splits option.splits tomlValue.splits)
    show ?thesis unfolding st using c m n v by (auto simp: Let_def)
  qed
qed

lemma buildAllPackages_fault_step:
  assumes "readable gh cands path" and "faultAt gh cands path = Some tail"
  shows "buildAllPackages gh cands (path # members) st =
         Inl (ConfigurationError (''package manifest at '' @ joinPath gh path ''pyproject.toml'' @ tail))"
proof -
  obtain c m where c: "readManifest gh cands path = Inr c" and m: "TOML_parse c = Inr m"
    using assms(1) by (auto simp: readable_def split: sum.splits)
  have f: "versionFault m = Some tail" using assms(2) c m by (simp add: faultAt_def)
  obtain a b l where st: "st = (a, b, l)" by (cases st)
  from f obtain n where n: "manifestName m = Some n" "n \<noteq> []"
    by (cases "manifestName m") (auto simp: versionFault_def split: if_splits)
  show ?thesis
  proof (cases "truthy (manifestVersion m)")
    case False
    then have "tail = '' is missing version''" using f n by (simp add: versionFault_def)
    then show ?thesis unfolding st using c m n False by (simp add: Let_def)
  next
    case True
    then have "tail = '' has an invalid version'' \<and> (\<forall>v. manifestVersion m \<noteq> Some (TString v))"
      using f n by (auto simp: versionFault_def split: option.splits tomlValue.splits)
    then show ?thesis unfolding st using c m n True
      by (auto simp: Let_def split: option.splits tomlValue.splits)
  qed
qed

lemma buildAllPackages_ok:
  assumes "\<forall>path \<in> set members. readable gh cands path \<and> faultAt gh cands path = None"
  shows "\<exists>r. buildAllPackages gh cands members st = Inr r"
  using assms
proof (induction members arbitrary: st)
  case Nil
  show ?case by (rule exI[of _ st]) simp
next
  case (Cons path members)
  from buildAllPackages_ok_step[of gh cands path members st] Cons.prems
  obtain st' where "buildAllPackages gh cands (path # members) st = buildAllPackages gh cands members st'"
    by auto
  then show ?case using Cons.IH[of st'] Cons.prems by simp
qed

lemma buildAllPackages_first_fault:
  assumes "\<forall>path \<in> set pre. readable gh cands path \<and> faultAt gh cands path = None"
    and "readable gh cands path" and "faultAt gh cands path = Some tail"
  shows "buildAllPackages gh cands (pre @ path # post) st =
         Inl (ConfigurationError (''package manifest at '' @ joinPath gh path ''pyproject.toml'' @ tail))"
  using assms(1)
proof (induction pre arbitrary: st)
  case Nil
  then show ?case using buildAllPackages_fault_step[OF assms(2,3)] by simp
next
  case (Cons q pre)
  from buildAllPackages_ok_step[of gh cands q "pre @ path # post" st] Cons.prems
  obtain st' where "buildAllPackages gh cands (q # pre @ path # post) st =
      buildAllPackages gh cands (pre @ path # post) st'"
    by auto
  then show ?case using Cons.IH[of st'] Cons.prems by simp
qed

lemma buildAllPackages_push_step:
  assumes "readable gh cands path" and "faultAt gh cands path = None"
  shows "\<exists>cbp' lg'. buildAllPackages gh cands (path # members) (pkgs, cbp, lg) =
           buildAllPackages gh cands members
             (pkgs @ (case packageAt gh cands path of None \<Rightarrow> [] | Some p \<Rightarrow> [p]), cbp', lg')"
proof -
  obtain c m where c: "readManifest gh cands path = Inr c" and m: "TOML_parse c = Inr m"
    using assms(1) by (auto simp: readable_def split: sum.splits)
  have f: "versionFault m = None" using assms(2) c m by (simp add: faultAt_def)
  show ?thesis
  proof (cases "truthyStr (manifestName m)")
    case False
    then have "packageAt gh cands path = None"
      using c m by (cases "manifestName m") (auto simp: packageAt_def split: option.splits tomlValue.splits)
    then show ?thesis using False c m
      by (cases "manifestName m") (auto simp: Let_def)
  next
    case True
    then obtain n where n: "manifestName m = Some n" "n \<noteq> []" by (cases "manifestName m") auto
    from f True obtain v where v: "manifestVersion m = Some (TString v)" "truthy (manifestVersion m)"
      by (auto simp: versionFault_def split: if_splits option.splits tomlValue.splits)
    have "v \<noteq> []" using v by simp
    then have "packageAt gh cands path =
        Some \<lparr> pkg_path = path, pkg_name = n, pkg_version = v,
               manifestPath = joinPath gh path ''pyproject.toml'', manifestContent = c, manifest = m \<rparr>"
      using c m n v by (simp add: packageAt_def)
    then show ?thesis using c m n v by (auto simp: Let_def)
  qed
qed

lemma buildAllPackages_all_kept:
  assumes "\<forall>path \<in> set members. readable gh cands path \<and> faultAt gh cands path = None"
  shows "\<exists>cbp' lg'. buildAllPackages gh cands members (pkgs, cbp, lg) =
           Inr (pkgs @ List.map_filter (packageAt gh cands) members, cbp', lg')"
  using assms
proof (induction members arbitrary: pkgs cbp lg)
  case Nil
  show ?case by (simp add: List.map_filter_simps)
next
  case (Cons path members)
  from buildAllPackages_push_step[of gh cands path members pkgs cbp lg] Cons.prems
  obtain cbp1 lg1 where st: "buildAllPackages gh cands (path # members) (pkgs, cbp, lg) =
      buildAllPackages gh cands members
        (pkgs @ (case packageAt gh cands path of None \<Rightarrow> [] | Some p \<Rightarrow> [p]), cbp1, lg1)"
    by auto
  have "\<forall>path \<in> set members. readable gh cands path \<and> faultAt gh cands path = None"
    using Cons.prems by simp
  from Cons.IH[OF this, of "pkgs @ (case packageAt gh cands path of None \<Rightarrow> [] | Some p \<Rightarrow> [p])" cbp1 lg1]
  obtain cbp' lg' where "buildAllPackages gh cands members
        (pkgs @ (case packageAt gh cands path of None \<Rightarrow> [] | Some p \<Rightarrow> [p]), cbp1, lg1) =
      Inr ((pkgs @ (case packageAt gh cands path of None \<Rightarrow> [] | Some p \<Rightarrow> [p])) @
             List.map_filter (packageAt gh cands) members, cbp', lg')"
    by auto
  then have "buildAllPackages gh cands (path # members) (pkgs, cbp, lg) =
      Inr (pkgs @ List.map_filter (packageAt gh cands) (path # members), cbp', lg')"
    unfolding st by (cases "packageAt gh cands path") (simp_all add: List.map_filter_simps)
  then show ?case by blast
qed

text \<open>
  Claim C4, as amended. When every manifest can be read and parsed, building the
  package set fails exactly when some manifest that declares a package name has no
  truthy version or a version that is not a string; the error is then the
  configuration error whose message carries the path of the first such manifest, in the
  order of the members, and says which of the two faults it has. When no manifest has
  such a fault, the package set holds the package of every manifest that declares a
  name, in the order of the members: packages that declare the same name are all kept,
  and the repeated name is not detected.
\<close>

theorem buildAllPackages_ConfigurationError:
  assumes "\<forall>path \<in> set members. readable gh cands path"
  shows "((\<exists>e. buildAllPackages gh cands members (pkgs, cbp, lg) = Inl e) \<longleftrightarrow>
            (\<exists>path \<in> set members. faultAt gh cands path \<noteq> None))
       \<and> (\<forall>e. buildAllPackages gh cands members (pkgs, cbp, lg) = Inl e \<longrightarrow>
            (\<exists>path \<in> set members. \<exists>tail. faultAt gh cands path = Some tail \<and>
               e = ConfigurationError (''package manifest at '' @ joinPath gh path ''pyproject.toml'' @ tail)))
       \<and> (\<forall>pre path post tail.
            members = pre @ path # post \<and> (\<forall>q \<in> set pre. faultAt gh cands q = None)
              \<and> faultAt gh cands path = Some tail \<longrightarrow>
            buildAllPackages gh cands members (pkgs, cbp, lg) =
              Inl (ConfigurationError (''package manifest at '' @ joinPath gh path ''pyproject.toml'' @ tail)))
       \<and> ((\<forall>path \<in> set members. faultAt gh cands path = None) \<longrightarrow>
            (\<exists>cbp' lg'. buildAllPackages gh cands members (pkgs, cbp, lg) =
               Inr (pkgs @ List.map_filter (packageAt gh cands) members, cbp', lg')))"
proof -
  let ?st = "(pkgs, cbp, lg)"
  have first: "buildAllPackages gh cands members ?st =
              Inl (ConfigurationError (''package manifest at '' @ joinPath gh path ''pyproject.toml'' @ tail))"
    if sp: "members = pre @ path # post" and pre: "\<forall>q \<in> set pre. faultAt gh cands q = None"
      and s: "faultAt gh cands path = Some tail" for pre path post tail
  proof -
    have "\<forall>q \<in> set pre. readable gh cands q \<and> faultAt gh cands q = None"
      using pre assms sp by auto
    from buildAllPackages_first_fault[OF this _ s, of post ?st] assms sp
    show ?thesis by simp
  qed
  have kept: "\<exists>cbp' lg'. buildAllPackages gh cands members ?st =
               Inr (pkgs @ List.map_filter (packageAt gh cands) members, cbp', lg')"
    if "\<forall>path \<in> set members. faultAt gh cands path = None"
  proof -
    have "\<forall>path \<in> set members. readable gh cands path \<and> faultAt gh cands path = None"
      using that assms by blast
    from buildAllPackages_all_kept[OF this] show ?thesis .
  qed
  have fails: "((\<exists>e. buildAllPackages gh cands members ?st = Inl e) \<longleftrightarrow>
            (\<exists>path \<in> set members. faultAt gh cands path \<noteq> None))
       \<and> (\<forall>e. buildAllPackages gh cands members ?st = Inl e \<longrightarrow>
            (\<exists>path \<in> set members. \<exists>tail. faultAt gh cands path = Some tail \<and>
               e = ConfigurationError (''package manifest at '' @ joinPath gh path ''pyproject.toml'' @ tail)))"
  proof (cases "\<exists>path \<in> set members. faultAt gh cands path \<noteq> None")
    case False
    then have none: "\<forall>path \<in> set members. faultAt gh cands path = None" by blast
    from kept[OF none] False show ?thesis by auto
  next
    case True
    then obtain pre path post where sp: "members = pre @ path # post"
      and p: "faultAt gh cands path \<noteq> None" and pre: "\<forall>q \<in> set pre. \<not> faultAt gh cands q \<noteq> None"
      using split_list_first_prop[of members "\<lambda>q. faultAt gh cands q \<noteq> None"] by blast
    from p obtain tail where s: "faultAt gh cands path = Some tail" by auto
    have pre': "\<forall>q \<in> set pre. faultAt gh cands q = None" using pre by simp
    note r = first[OF sp pre' s]
    show ?thesis using r True s sp by auto
  qed
  show ?thesis using fails first kept by blast
qed

text \<open>
  Claim C4 as stated fails: two discovered packages declare the name \<^verbatim>\<open>core\<close>, and the
  package set is built with both.
\<close>

theorem buildAllPackages_ConfigurationError_counterexample:
  "buildAllPackages twoCores [] [''packages/a'', ''packages/b''] ([], Map.empty, []) =
     Inr ([\<lparr> pkg_path = ''packages/a'', pkg_name = ''core'', pkg_version = ''1.0.0'',
             manifestPath = ''packages/a/pyproject.toml'', manifestContent = Document coreManifest,
             manifest = coreManifest \<rparr>,
           \<lparr> pkg_path = ''packages/b'', pkg_name = ''core'', pkg_version = ''1.0.0'',
             manifestPath = ''packages/b/pyproject.toml'', manifestContent = Document coreManifest,
             manifest = coreManifest \<rparr>],
          Map.empty,
          [Info ''looking for candidate with path: packages/a'',
           Info ''looking for candidate with path: packages/b''])"
  by (simp add: twoCores_def coreManifest_def readManifest_def cachedFileContents_def manifestName_def
      manifestVersion_def projectName_def orElse_def orElseStr_def)

theorem buildAllPackages_ConfigurationError_witness:
  "readable twoCores [] ''packages/a'' \<and> readable twoCores [] ''packages/n''
   \<and> faultAt twoCores [] ''packages/a'' = None
   \<and> faultAt twoCores [] ''packages/n'' = Some '' has an invalid version''
   \<and> buildAllPackages twoCores [] [''packages/a'', ''packages/n''] ([], Map.empty, []) =
       Inl (ConfigurationError ''package manifest at packages/n/pyproject.toml has an invalid version'')"
proof -
  have r: "\<forall>path \<in> set [''packages/a'', ''packages/n'']. readable twoCores [] path"
    by (simp add: readable_def twoCores_def readManifest_def cachedFileContents_def)
  from buildAllPackages_ConfigurationError[OF r, of "[]" Map.empty "[]"] r
  show ?thesis
    by (simp add: faultAt_def versionFault_def twoCores_def coreManifest_def numberedManifest_def
        readManifest_def cachedFileContents_def manifestName_def manifestVersion_def projectName_def
        orElse_def orElseStr_def)
qed

lemma parseMemberManifests_append:
  "parseMemberManifests gh (xs @ ys) mm =
     (case parseMemberManifests gh xs mm of
        Inl e \<Rightarrow> Inl e
      | Inr mm' \<Rightarrow> parseMemberManifests gh ys mm')"
  by (induction xs arbitrary: mm) (auto split: sum.splits)

lemma getContent_none:
  "getFileContentsOnBranch gh (addPath gh p) = Inr None \<or> (\<exists>e. getFileContentsOnBranch gh (addPath gh p) = Inl e)
   \<Longrightarrow> getContent gh p = None"
  by (auto simp: getContent_def)

text \<open>
  Claim C5, as amended. For every declared member (no glob pattern) whose manifest read
  yields no content, be it a missing result or any exception of the read, which
  \<^verbatim>\<open>getContent\<close> catches, the strategy fails with a plain \<^verbatim>\<open>Error\<close> whose message names
  the member and the expected manifest path; nothing is retried. The second copy of the
  strategy logs a warning instead and skips the member.
\<close>

theorem parseMemberManifests_missing:
  assumes "parseMemberManifests gh earlier mm = Inr mm'"
    and "\<not> str_includes member ''*''"
    and "getFileContentsOnBranch gh (addPath gh (member @ ''/pyproject.toml'')) = Inr None
         \<or> (\<exists>e. getFileContentsOnBranch gh (addPath gh (member @ ''/pyproject.toml'')) = Inl e)"
  shows "parseMemberManifests gh (earlier @ member # later) mm =
           Inl (notFoundError member (member @ ''/pyproject.toml''))
       \<and> parseMemberManifests_lenient gh [member] (mm, lg) =
           Inr (mm, lg @ [Warn (''Member '' @ member @ '' declared but did not find pyproject.toml'')])"
proof -
  have g: "getContent gh (member @ ''/pyproject.toml'') = None"
    by (rule getContent_none[OF assms(3)])
  have 1: "parseMemberManifests gh (member # later) mm' = Inl (notFoundError member (member @ ''/pyproject.toml''))"
    using assms(2) g by (simp add: expandWorkspaceMember_def Let_def)
  have 2: "parseMemberManifests_lenient gh [member] (mm, lg) =
           Inr (mm, lg @ [Warn (''Member '' @ member @ '' declared but did not find pyproject.toml'')])"
    using assms(2) g by (simp add: expandWorkspaceMember_lenient_def Let_def)
  show ?thesis using 1 2 assms(1) by (simp add: parseMemberManifests_append)
qed

text \<open>
  Claim C5 as stated fails: the error for a missing manifest is a plain \<^verbatim>\<open>Error\<close>, no
  configuration error, and a transport failure of the read does not propagate: it is
  reported as the same missing manifest.
\<close>

theorem parseMemberManifests_missing_counterexample:
  "parseMemberManifests missingMember [''packages/missing''] [] =
     Inl (Error (''Workspace member '' @ [CHR 0x27] @ ''packages/missing'' @ [CHR 0x27] @
                 '' declared but pyproject.toml not found at packages/missing/pyproject.toml''))
   \<and> getFileContentsOnBranch brokenTransport (addPath brokenTransport ''packages/core/pyproject.toml'') =
       Inl (Error ''ETIMEDOUT'')
   \<and> parseMemberManifests brokenTransport [''packages/core''] [] =
     Inl (Error (''Workspace member '' @ [CHR 0x27] @ ''packages/core'' @ [CHR 0x27] @
                 '' declared but pyproject.toml not found at packages/core/pyproject.toml''))"
  by (simp add: missingMember_def brokenTransport_def expandWorkspaceMember_def getContent_def
      notFoundError_def)

theorem parseMemberManifests_missing_witness:
  "parseMemberManifests missingMember [''packages/core''] [] = Inr [(''packages/core'', plainManifest ''core'')]
   \<and> \<not> str_includes ''packages/missing'' ''*''
   \<and> getFileContentsOnBranch missingMember (addPath missingMember (''packages/missing'' @ ''/pyproject.toml'')) = Inr None
   \<and> parseMemberManifests missingMember ([''packages/core''] @ ''packages/missing'' # [''packages/late'']) [] =
       Inl (notFoundError ''packages/missing'' ''packages/missing/pyproject.toml'')
   \<and> parseMemberManifests_lenient missingMember [''packages/missing''] ([], []) =
       Inr ([], [Warn ''Member packages/missing declared but did not find pyproject.toml''])"
proof -
  have a: "parseMemberManifests missingMember [''packages/core''] [] = Inr [(''packages/core'', plainManifest ''core'')]"
    by (simp add: missingMember_def expandWorkspaceMember_def getContent_def)
  have b: "\<not> str_includes ''packages/missing'' ''*''" by simp
  have c: "getFileContentsOnBranch missingMember (addPath missingMember (''packages/missing'' @ ''/pyproject.toml'')) = Inr None
           \<or> (\<exists>e. getFileContentsOnBranch missingMember (addPath missingMember (''packages/missing'' @ ''/pyproject.toml'')) = Inl e)"
    by (simp add: missingMember_def)
  from parseMemberManifests_missing[OF a b c, of "[''packages/late'']" "[]"] a b
  show ?thesis by (simp add: missingMember_def)
qed

lemma set_mapSet: "set (mapSet k v g) \<subseteq> insert (k, v) (set g)"
  by (induction g) (auto split: if_splits)

lemma fold_mapSet_entries:
  "set (fold (\<lambda>p g. mapSet (fst (f p)) (snd (f p)) g) ps g0) \<subseteq> set g0 \<union> f ` set ps"
proof (induction ps arbitrary: g0)
  case Nil
  then show ?case by simp
next
  case (Cons p ps)
  have "set (mapSet (fst (f p)) (snd (f p)) g0) \<subseteq> insert (f p) (set g0)"
    using set_mapSet[of "fst (f p)" "snd (f p)" g0] by simp
  then show ?case using Cons.IH[of "mapSet (fst (f p)) (snd (f p)) g0"] by auto
qed

lemma buildGraph_fold:
  "buildGraph allPackages =
     fold (\<lambda>p g. mapSet (fst (nodeOf allPackages p)) (snd (nodeOf allPackages p)) g) allPackages []"
  by (simp add: buildGraph_def nodeOf_def Let_def)

lemma keys_mapSet:
  "map fst (mapSet k v g) = (if k \<in> set (map fst g) then map fst g else map fst g @ [k])"
  by (induction g) (auto simp: rev_image_eqI)

lemma map_of_mapSet: "map_of (mapSet k v g) = (map_of g)(k \<mapsto> v)"
  by (induction g) auto

lemma mapSet_new: "k \<notin> set (map fst g) \<Longrightarrow> mapSet k v g = g @ [(k, v)]"
  by (induction g) auto

lemma set_first_occurrences: "set (rev (remdups (rev xs))) = set xs"
  by simp

lemma fold_mapSet_keys:
  "map fst (fold (\<lambda>p g. mapSet (fst (f p)) (snd (f p)) g) ps []) =
     rev (remdups (rev (map (\<lambda>p. fst (f p)) ps)))"
proof (induction ps rule: rev_induct)
  case Nil
  show ?case by simp
next
  case (snoc p ps)
  have "set (map fst (fold (\<lambda>p g. mapSet (fst (f p)) (snd (f p)) g) ps [])) =
        set (map (\<lambda>p. fst (f p)) ps)"
    unfolding snoc.IH by simp
  then show ?case using snoc.IH by (simp add: keys_mapSet)
qed

lemma fold_mapSet_map_of:
  "map_of (fold (\<lambda>p g. mapSet (fst (f p)) (snd (f p)) g) ps []) = map_of (rev (map f ps))"
proof (induction ps rule: rev_induct)
  case Nil
  show ?case by simp
next
  case (snoc p ps)
  have "map_of (rev (map f (ps @ [p]))) = (map_of (rev (map f ps)))(fst (f p) \<mapsto> snd (f p))"
    by (cases "f p") simp
  then show ?case using snoc.IH by (simp add: map_of_mapSet)
qed

lemma fold_mapSet_distinct:
  "distinct (map (\<lambda>p. fst (f p)) ps) \<Longrightarrow> set (map fst g0) \<inter> set (map (\<lambda>p. fst (f p)) ps) = {} \<Longrightarrow>
   fold (\<lambda>p g. mapSet (fst (f p)) (snd (f p)) g) ps g0 = g0 @ map f ps"
proof (induction ps arbitrary: g0)
  case Nil
  show ?case by simp
next
  case (Cons p ps)
  have new: "fst (f p) \<notin> set (map fst g0)" using Cons.prems(2) by auto
  have step: "mapSet (fst (f p)) (snd (f p)) g0 = g0 @ [f p]"
    using mapSet_new[OF new, of "snd (f p)"] by simp
  have d: "distinct (map (\<lambda>p. fst (f p)) ps)" using Cons.prems(1) by simp
  have i: "set (map fst (g0 @ [f p])) \<inter> set (map (\<lambda>p. fst (f p)) ps) = {}"
    using Cons.prems by auto
  show ?case using Cons.IH[OF d i] step by simp
qed

lemma nodeOf_name: "fst (nodeOf allPackages p) = pkg_name p"
  by (simp add: nodeOf_def)

lemma buildGraph_keys:
  "map fst (buildGraph allPackages) = rev (remdups (rev (map pkg_name allPackages)))"
  unfolding buildGraph_fold fold_mapSet_keys by (simp add: nodeOf_name)

text \<open>
  Claim C8, as amended. The graph has one node for every name of the discovery set, in
  the order in which the names are first discovered, and the node of a name is the node
  of the last package that declares the name; when no two packages share a name, the
  graph is the list of the nodes of the packages. The dependencies of the node of a
  package are the extracted names of all its declared dependencies, in the order of
  declaration, that are names of the discovery set. So every retained edge points to a
  package of the same discovery set and external names are dropped, while
  self-references and repeated declarations are retained.
\<close>

theorem buildGraph_edges:
  "map fst (buildGraph allPackages) = rev (remdups (rev (map pkg_name allPackages)))
   \<and> map_of (buildGraph allPackages) = map_of (rev (map (nodeOf allPackages) allPackages))
   \<and> (distinct (map pkg_name allPackages) \<longrightarrow>
         buildGraph allPackages = map (nodeOf allPackages) allPackages)
   \<and> (\<forall>entry \<in> set (buildGraph allPackages).
         (\<exists>packageInfo \<in> set allPackages. entry = nodeOf allPackages packageInfo)
         \<and> set (deps (snd entry)) \<subseteq> set (map pkg_name allPackages))
   \<and> (\<forall>packageInfo.
         deps (snd (nodeOf allPackages packageInfo)) =
           filter (\<lambda>dep. dep \<in> set (map pkg_name allPackages))
             (map extractPackageName (allDeps (manifest packageInfo))))"
proof -
  have 1: "map fst (buildGraph allPackages) = rev (remdups (rev (map pkg_name allPackages)))"
    by (rule buildGraph_keys)
  have 2: "map_of (buildGraph allPackages) = map_of (rev (map (nodeOf allPackages) allPackages))"
    unfolding buildGraph_fold by (rule fold_mapSet_map_of)
  have 3: "buildGraph allPackages = map (nodeOf allPackages) allPackages"
    if "distinct (map pkg_name allPackages)"
    unfolding buildGraph_fold
    using fold_mapSet_distinct[of "nodeOf allPackages" allPackages "[]"] that
    by (simp add: nodeOf_name)
  have 4: "(\<exists>packageInfo \<in> set allPackages. entry = nodeOf allPackages packageInfo)
      \<and> set (deps (snd entry)) \<subseteq> set (map pkg_name allPackages)"
    if "entry \<in> set (buildGraph allPackages)" for entry
  proof -
    have "entry \<in> nodeOf allPackages ` set allPackages"
      using that fold_mapSet_entries[of "nodeOf allPackages" allPackages "[]"]
      unfolding buildGraph_fold by auto
    then obtain p where p: "p \<in> set allPackages" "entry = nodeOf allPackages p" by auto
    then show ?thesis by (auto simp: nodeOf_def)
  qed
  have 5: "deps (snd (nodeOf allPackages packageInfo)) =
           filter (\<lambda>dep. dep \<in> set (map pkg_name allPackages))
             (map extractPackageName (allDeps (manifest packageInfo)))" for packageInfo
    by (simp add: nodeOf_def)
  show ?thesis using 1 2 3 4 5 by blast
qed

text \<open>
  Claim C8 as stated fails: package \<^verbatim>\<open>a\<close> declares \<^verbatim>\<open>b\<close> twice and itself once (an extra
  of its own), and its node keeps all three edges.
\<close>

theorem buildGraph_edges_counterexample:
  "map (\<lambda>entry. (fst entry, deps (snd entry))) (buildGraph [selfPackage, otherPackage]) =
     [(''a'', [''b'', ''a'', ''b'']), (''b'', [])]"
  by (simp add: buildGraph_def selfPackage_def otherPackage_def plainManifest_def allDeps_def
      extractPackageName_def isNameChar_def)

theorem buildGraph_edges_witness:
  "buildGraph [selfPackage, otherPackage] =
     [nodeOf [selfPackage, otherPackage] selfPackage, nodeOf [selfPackage, otherPackage] otherPackage]
   \<and> set (deps (snd (nodeOf [selfPackage, otherPackage] selfPackage))) = {''a'', ''b''}"
  using buildGraph_edges[of "[selfPackage, otherPackage]"]
  by (simp add: buildGraph_def nodeOf_def selfPackage_def otherPackage_def plainManifest_def allDeps_def
      extractPackageName_def isNameChar_def insert_commute)







lemma cascadeGraph_distinct: "distinct (nodeNames (cascadeGraph cur (buildGraph allPackages)))"
proof -
  have "nodeNames (cascadeGraph cur (buildGraph allPackages)) = map fst (buildGraph allPackages)"
    by (simp add: nodeNames_def cascadeGraph_def)
  then show ?thesis by (simp add: buildGraph_keys)
qed

lemma edges_iff:
  "(x, y) \<in> edges graph \<longleftrightarrow> (\<exists>entry \<in> set graph. node_name (fst entry) = x \<and> y \<in> set (snd entry))"
  by (auto simp: edges_def edgeList_def)

lemma distinct_entry:
  assumes "distinct (nodeNames graph)" and "e1 \<in> set graph" and "e2 \<in> set graph"
    and "node_name (fst e1) = node_name (fst e2)"
  shows "e1 = e2"
  using assms by (auto simp: nodeNames_def distinct_map inj_on_def)

lemma cycle_successor:
  assumes "(x, x) \<in> (edges graph)\<^sup>+"
  shows "\<exists>y. (x, y) \<in> edges graph \<and> (y, y) \<in> (edges graph)\<^sup>+"
proof -
  from tranclD[OF assms] obtain y where y: "(x, y) \<in> edges graph" "(y, x) \<in> (edges graph)\<^sup>*"
    by blast
  from rtrancl_into_trancl1[OF y(2) y(1)] y(1) show ?thesis by blast
qed

lemma cycle_member_node:
  assumes "(x, x) \<in> (edges graph)\<^sup>+"
  shows "x \<in> set (nodeNames graph)"
proof -
  from cycle_successor[OF assms] obtain y where "(x, y) \<in> edges graph" by blast
  then show ?thesis unfolding edges_iff by (auto simp: nodeNames_def)
qed

text \<open>
  One step of a pass: the state it leaves, and when it resolves the node. A node does
  not wait when every target of its edges that is a node is resolved.
\<close>

lemma scanNodes_step:
  "\<exists>result2 resolved2.
      scanNodes bp names ((n, targets) # rest) (result, resolved) =
        scanNodes bp names rest (result2, resolved2)
    \<and> set resolved \<subseteq> set resolved2
    \<and> ((\<forall>t \<in> set targets. t \<in> set names \<longrightarrow> t \<in> set resolved) \<longrightarrow> node_name n \<in> set resolved2)
    \<and> (\<forall>y \<in> set resolved2. y \<in> set resolved
           \<or> (y = node_name n \<and> (\<forall>t \<in> set targets. t \<in> set names \<longrightarrow> t \<in> set resolved)))"
proof (cases "node_name n \<in> set resolved \<or> list_ex (\<lambda>t. t \<in> set names \<and> t \<notin> set resolved) targets")
  case True
  then have "scanNodes bp names ((n, targets) # rest) (result, resolved) =
             scanNodes bp names rest (result, resolved)"
    by simp
  then show ?thesis using True by (intro exI[of _ result] exI[of _ resolved]) (auto simp: list_ex_iff)
next
  case False
  let ?r = "if result (node_name n) = None \<and> list_ex (\<lambda>t. result t \<noteq> None) targets
            then result (node_name n \<mapsto> bp (currentVersion n)) else result"
  have "scanNodes bp names ((n, targets) # rest) (result, resolved) =
        scanNodes bp names rest (?r, resolved @ [node_name n])"
    using False by simp
  then show ?thesis using False
    by (intro exI[of _ ?r] exI[of _ "resolved @ [node_name n]"]) (auto simp: list_ex_iff)
qed

lemma scanNodes_mono: "set resolved \<subseteq> set (snd (scanNodes bp names rest (result, resolved)))"
proof (induction rest arbitrary: result resolved)
  case Nil
  show ?case by simp
next
  case (Cons entry rest)
  obtain n targets where e: "entry = (n, targets)" by (cases entry)
  from scanNodes_step[of bp names n targets rest result resolved]
  obtain result2 resolved2 where
    s: "scanNodes bp names ((n, targets) # rest) (result, resolved) =
        scanNodes bp names rest (result2, resolved2)"
    and m: "set resolved \<subseteq> set resolved2"
    by blast
  show ?case unfolding e s using m Cons.IH[where result = result2 and resolved = resolved2] by blast
qed

lemma scanNodes_progress:
  assumes "(n, targets) \<in> set rest" and "\<forall>t \<in> set targets. t \<in> set names \<longrightarrow> t \<in> set resolved"
  shows "node_name n \<in> set (snd (scanNodes bp names rest (result, resolved)))"
  using assms
proof (induction rest arbitrary: result resolved)
  case Nil
  then show ?case by simp
next
  case (Cons entry rest)
  obtain n1 targets1 where e: "entry = (n1, targets1)" by (cases entry)
  from scanNodes_step[of bp names n1 targets1 rest result resolved]
  obtain result2 resolved2 where
    s: "scanNodes bp names ((n1, targets1) # rest) (result, resolved) =
        scanNodes bp names rest (result2, resolved2)"
    and m: "set resolved \<subseteq> set resolved2"
    and p: "(\<forall>t \<in> set targets1. t \<in> set names \<longrightarrow> t \<in> set resolved) \<longrightarrow> node_name n1 \<in> set resolved2"
    by blast
  show ?case
  proof (cases "(n, targets) = (n1, targets1)")
    case True
    then have "node_name n \<in> set resolved2" using p Cons.prems(2) by simp
    then show ?thesis unfolding e s
      using scanNodes_mono[where resolved = resolved2 and bp = bp and names = names and rest = rest
          and result = result2]
      by blast
  next
    case False
    then have i: "(n, targets) \<in> set rest" using Cons.prems(1) e by auto
    have "\<forall>t \<in> set targets. t \<in> set names \<longrightarrow> t \<in> set resolved2" using Cons.prems(2) m by blast
    from Cons.IH[OF i this] show ?thesis unfolding e s .
  qed
qed

text \<open>No pass resolves a member of a cycle: the next member of the cycle is never resolved.\<close>

lemma scanNodes_no_cycle_member:
  assumes "distinct (nodeNames graph)" and "set rest \<subseteq> set graph"
    and "\<forall>y \<in> set resolved. (y, y) \<notin> (edges graph)\<^sup>+"
  shows "\<forall>y \<in> set (snd (scanNodes bp (nodeNames graph) rest (result, resolved))).
           (y, y) \<notin> (edges graph)\<^sup>+"
  using assms(2,3)
proof (induction rest arbitrary: result resolved)
  case Nil
  then show ?case by simp
next
  case (Cons entry rest)
  obtain n targets where e: "entry = (n, targets)" by (cases entry)
  from scanNodes_step[of bp "nodeNames graph" n targets rest result resolved]
  obtain result2 resolved2 where
    s: "scanNodes bp (nodeNames graph) ((n, targets) # rest) (result, resolved) =
        scanNodes bp (nodeNames graph) rest (result2, resolved2)"
    and o: "\<forall>y \<in> set resolved2. y \<in> set resolved
              \<or> (y = node_name n \<and> (\<forall>t \<in> set targets. t \<in> set (nodeNames graph) \<longrightarrow> t \<in> set resolved))"
    by blast
  have inv: "\<forall>y \<in> set resolved2. (y, y) \<notin> (edges graph)\<^sup>+"
  proof
    fix y assume y: "y \<in> set resolved2"
    show "(y, y) \<notin> (edges graph)\<^sup>+"
    proof (cases "y \<in> set resolved")
      case True
      then show ?thesis using Cons.prems(2) by blast
    next
      case False
      then have yn: "y = node_name n"
        and all: "\<forall>t \<in> set targets. t \<in> set (nodeNames graph) \<longrightarrow> t \<in> set resolved"
        using o y by blast+
      show ?thesis
      proof
        assume "(y, y) \<in> (edges graph)\<^sup>+"
        from cycle_successor[OF this] obtain z where z: "(y, z) \<in> edges graph" "(z, z) \<in> (edges graph)\<^sup>+"
          by blast
        from z(1) obtain entry2 where e2: "entry2 \<in> set graph" "node_name (fst entry2) = y" "z \<in> set (snd entry2)"
          unfolding edges_iff by blast
        have "(n, targets) \<in> set graph" using Cons.prems(1) e by simp
        from distinct_entry[OF assms(1) e2(1) this] e2(2) yn have "entry2 = (n, targets)" by simp
        then have "z \<in> set targets" using e2(3) by simp
        moreover have "z \<in> set (nodeNames graph)" using z(2) by (rule cycle_member_node)
        ultimately have "z \<in> set resolved" using all by blast
        then show False using Cons.prems(2) z(2) by blast
      qed
    qed
  qed
  have "set rest \<subseteq> set graph" using Cons.prems(1) by simp
  from Cons.IH[OF this inv] show ?case unfolding e s .
qed

lemma iteratePasses_cycle:
  assumes "distinct (nodeNames graph)" and "(x, x) \<in> (edges graph)\<^sup>+"
    and "\<forall>y \<in> set resolved. (y, y) \<notin> (edges graph)\<^sup>+"
  shows "iteratePasses passes bp graph (result, resolved) = Inl (cycleError (cycleMembers graph))"
  using assms(3)
proof (induction passes arbitrary: result resolved)
  case 0
  have "x \<notin> set resolved" using 0 assms(2) by blast
  then have "x \<in> set (waiting graph resolved)"
    using cycle_member_node[OF assms(2)] by (simp add: waiting_def)
  then have "waiting graph resolved \<noteq> []" by auto
  then show ?case by simp
next
  case (Suc passes)
  have "x \<notin> set resolved" using Suc.prems assms(2) by blast
  then have "x \<in> set (waiting graph resolved)"
    using cycle_member_node[OF assms(2)] by (simp add: waiting_def)
  then have w: "waiting graph resolved \<noteq> []" by auto
  obtain result2 resolved2 where
    s: "scanNodes bp (nodeNames graph) graph (result, resolved) = (result2, resolved2)"
    by (cases "scanNodes bp (nodeNames graph) graph (result, resolved)")
  have "\<forall>y \<in> set resolved2. (y, y) \<notin> (edges graph)\<^sup>+"
    using scanNodes_no_cycle_member[OF assms(1) subset_refl Suc.prems, of bp result] s by simp
  from Suc.IH[OF this, of result2] show ?case using w s by simp
qed

text \<open>
  Claim C6. On every dependency graph in which no name is present twice (the graph that
  \<^verbatim>\<open>buildGraph\<close> builds is one) and that contains a cycle, and for every seed and bump
  policy, the cascade computation returns the configuration error that names the cycle
  members: every node from which a path of edges leads back to itself, and no other
  name. It returns for every graph; it neither loops nor produces a partial result.
\<close>

theorem computeClosure_cycle:
  assumes "graph = cascadeGraph cur (buildGraph allPackages) \<or> distinct (nodeNames graph)"
    and "(x, x) \<in> (edges graph)\<^sup>+"
  shows "computeClosure graph seed bumpPolicy = Inl (cycleError (cycleMembers graph))
     \<and> x \<in> set (cycleMembers graph)
     \<and> set (cycleMembers graph) = {y. (y, y) \<in> (edges graph)\<^sup>+}"
proof -
  have d: "distinct (nodeNames graph)" using assms(1) cascadeGraph_distinct by blast
  have 1: "computeClosure graph seed bumpPolicy = Inl (cycleError (cycleMembers graph))"
    unfolding computeClosure_def using iteratePasses_cycle[OF d assms(2), of "[]"] by simp
  have 3: "set (cycleMembers graph) = {y. (y, y) \<in> (edges graph)\<^sup>+}"
    using cycle_member_node by (auto simp: cycleMembers_def)
  show ?thesis using 1 3 assms(2) by simp
qed

lemma cycleGraph_edges:
  "(''A'', ''B'') \<in> edges cycleGraph" "(''B'', ''A'') \<in> edges cycleGraph"
  by (simp_all add: edges_def edgeList_def cycleGraph_def packageNode_def)

lemma cycleGraph_members: "cycleMembers cycleGraph = [''A'', ''B'']"
proof -
  have a: "(''A'', ''A'') \<in> (edges cycleGraph)\<^sup>+"
    using cycleGraph_edges by (blast intro: trancl.intros)
  have b: "(''B'', ''B'') \<in> (edges cycleGraph)\<^sup>+"
    using cycleGraph_edges by (blast intro: trancl.intros)
  have n: "nodeNames cycleGraph = [''A'', ''B'']"
    by (simp add: nodeNames_def cycleGraph_def packageNode_def)
  show ?thesis unfolding cycleMembers_def n using a b by simp
qed

theorem computeClosure_cycle_witness:
  "cascadeGraph (\<lambda>p. v100)
       (buildGraph [dependentPackage ''A'' ''B>=1.0.0'', dependentPackage ''B'' ''A>=1.0.0'']) = cycleGraph
   \<and> (''A'', ''A'') \<in> (edges cycleGraph)\<^sup>+
   \<and> computeClosure cycleGraph [''A'' \<mapsto> v110] PatchVersionUpdate_bump =
       Inl (ConfigurationError ''dependency cycle: A B'')"
proof -
  have g: "cycleGraph = cascadeGraph (\<lambda>p. v100)
       (buildGraph [dependentPackage ''A'' ''B>=1.0.0'', dependentPackage ''B'' ''A>=1.0.0''])"
    by (simp add: cascadeGraph_def buildGraph_def dependentPackage_def cycleGraph_def packageNode_def
        allDeps_def extractPackageName_def isNameChar_def)
  have a: "(''A'', ''A'') \<in> (edges cycleGraph)\<^sup>+"
    using cycleGraph_edges by (blast intro: trancl.intros)
  from computeClosure_cycle[OF disjI1[OF g] a, of "[''A'' \<mapsto> v110]" PatchVersionUpdate_bump]
  show ?thesis using g a by (simp add: cycleGraph_members cycleError_def)
qed

text \<open>
  The scenario of the spec, on the same model: core and util have no dependency, cli
  depends on core, and the seed holds core at 1.1.0. The cascade returns core at its
  seed version and cli at the patch bump of its own version; util is absent.
\<close>

lemma computeClosure_scenario:
  "computeClosure scenarioGraph [''core'' \<mapsto> v110] PatchVersionUpdate_bump =
     Inr [''core'' \<mapsto> v110, ''cli'' \<mapsto> v101]"
  by (simp add: computeClosure_def scenarioGraph_def packageNode_def waiting_def nodeNames_def
      PatchVersionUpdate_bump_def v100_def v101_def v110_def)

text \<open>
  The error arises from cycles only: on a graph without cycle every pass resolves a node
  that waits, so no node waits after as many passes as there are nodes, and the cascade
  returns a versions map.
\<close>

lemma filter_length_le:
  "(\<And>x. P x \<Longrightarrow> Q x) \<Longrightarrow> length (filter P xs) \<le> length (filter Q xs)"
  by (induction xs) auto

lemma filter_length_less:
  assumes "\<And>x. P x \<Longrightarrow> Q x" and "z \<in> set xs" and "Q z" and "\<not> P z"
  shows "length (filter P xs) < length (filter Q xs)"
  using assms(2)
proof (induction xs)
  case Nil
  then show ?case by simp
next
  case (Cons a xs)
  have le: "length (filter P xs) \<le> length (filter Q xs)" using assms(1) by (rule filter_length_le)
  show ?case
  proof (cases "a = z")
    case True
    then show ?thesis using le assms(3,4) by simp
  next
    case False
    then have "z \<in> set xs" using Cons.prems by simp
    from Cons.IH[OF this] show ?thesis using assms(1)[of a] by auto
  qed
qed

lemma waiting_minimal:
  assumes "acyclic (edges graph)" and "waiting graph resolved \<noteq> []"
  shows "\<exists>z \<in> set (waiting graph resolved). \<forall>y. (z, y) \<in> edges graph \<longrightarrow> y \<notin> set (waiting graph resolved)"
proof -
  have "finite (edges graph)" by (simp add: edges_def)
  then have w: "wf ((edges graph)\<inverse>)" using assms(1) by (rule finite_acyclic_wf_converse)
  from assms(2) obtain x where x: "x \<in> set (waiting graph resolved)"
    by (cases "waiting graph resolved") auto
  from wfE_min[OF w x] obtain z where "z \<in> set (waiting graph resolved)"
    and "\<And>y. (y, z) \<in> (edges graph)\<inverse> \<Longrightarrow> y \<notin> set (waiting graph resolved)"
    by blast
  then show ?thesis by auto
qed

lemma pass_progress:
  assumes "acyclic (edges graph)" and "waiting graph resolved \<noteq> []"
  shows "length (waiting graph (snd (scanNodes bp (nodeNames graph) graph (result, resolved)))) <
         length (waiting graph resolved)"
proof -
  let ?resolved2 = "snd (scanNodes bp (nodeNames graph) graph (result, resolved))"
  from waiting_minimal[OF assms] obtain z where z: "z \<in> set (waiting graph resolved)"
    and m: "\<forall>y. (z, y) \<in> edges graph \<longrightarrow> y \<notin> set (waiting graph resolved)"
    by blast
  from z have zn: "z \<in> set (nodeNames graph)" and zr: "z \<notin> set resolved"
    by (simp_all add: waiting_def)
  from zn obtain n targets where e: "(n, targets) \<in> set graph" "node_name n = z"
    by (auto simp: nodeNames_def)
  have "\<forall>t \<in> set targets. t \<in> set (nodeNames graph) \<longrightarrow> t \<in> set resolved"
  proof (intro ballI impI)
    fix t assume t: "t \<in> set targets" and tn: "t \<in> set (nodeNames graph)"
    from t have "(z, t) \<in> edges graph" using e unfolding edges_iff by force
    then have "t \<notin> set (waiting graph resolved)" using m by blast
    then show "t \<in> set resolved" using tn by (simp add: waiting_def)
  qed
  from scanNodes_progress[OF e(1) this, of bp result] e(2)
  have z2: "z \<in> set ?resolved2" by simp
  have mono: "set resolved \<subseteq> set ?resolved2" by (rule scanNodes_mono)
  have "length (filter (\<lambda>x. x \<notin> set ?resolved2) (nodeNames graph)) <
        length (filter (\<lambda>x. x \<notin> set resolved) (nodeNames graph))"
  proof (rule filter_length_less[of _ _ z])
    show "\<And>x. x \<notin> set ?resolved2 \<Longrightarrow> x \<notin> set resolved" using mono by blast
    show "z \<in> set (nodeNames graph)" by (rule zn)
    show "z \<notin> set resolved" by (rule zr)
    show "\<not> z \<notin> set ?resolved2" using z2 by simp
  qed
  then show ?thesis by (simp add: waiting_def)
qed

lemma iteratePasses_converges:
  assumes "acyclic (edges graph)" and "length (waiting graph resolved) \<le> passes"
  shows "\<exists>r. iteratePasses passes bp graph (result, resolved) = Inr r"
  using assms(2)
proof (induction passes arbitrary: result resolved)
  case 0
  then show ?case by simp
next
  case (Suc passes)
  show ?case
  proof (cases "waiting graph resolved = []")
    case True
    then show ?thesis by simp
  next
    case False
    obtain result2 resolved2 where
      s: "scanNodes bp (nodeNames graph) graph (result, resolved) = (result2, resolved2)"
      by (cases "scanNodes bp (nodeNames graph) graph (result, resolved)")
    from pass_progress[OF assms(1) False, of bp result] s Suc.prems
    have "length (waiting graph resolved2) \<le> passes" by simp
    from Suc.IH[OF this, of result2] show ?thesis using False s by simp
  qed
qed

lemma computeClosure_acyclic:
  assumes "acyclic (edges graph)"
  shows "\<exists>result. computeClosure graph seed bumpPolicy = Inr result"
proof -
  have "length (waiting graph []) \<le> length graph" by (simp add: waiting_def nodeNames_def)
  from iteratePasses_converges[OF assms this] show ?thesis by (simp add: computeClosure_def)
qed

text \<open>
  On a graph without cycle in which no name is present twice, the versions map returned
  is the closure of spec 4.2: the seed as it is, and a package that is not in the seed
  exactly when it has an outgoing edge to a package of the result, at the bumped version
  of its own current version.
\<close>

lemma settled_iff:
  "settled seed graph bp (result, resolved) \<longleftrightarrow>
     ((\<forall>x v. seed x = Some v \<longrightarrow> result x = Some v) \<and>
      (\<forall>x. seed x = None \<and> result x \<noteq> None \<longrightarrow> x \<in> set resolved) \<and>
      (\<forall>entry \<in> set graph. node_name (fst entry) \<in> set resolved \<longrightarrow>
         (\<forall>t \<in> set (snd entry). t \<in> set (nodeNames graph) \<longrightarrow> t \<in> set resolved) \<and>
         (seed (node_name (fst entry)) = None \<longrightarrow>
            result (node_name (fst entry)) =
              (if \<exists>t \<in> set (snd entry). result t \<noteq> None
               then Some (bp (currentVersion (fst entry))) else None))) \<and>
      set resolved \<subseteq> set (nodeNames graph))"
  unfolding settled_def prod.case by (rule refl)

lemma settled_step:
  assumes "distinct (nodeNames graph)" and "(n, targets) \<in> set graph"
    and "settled seed graph bp (result, resolved)"
  shows "\<exists>result2 resolved2.
      scanNodes bp (nodeNames graph) ((n, targets) # rest) (result, resolved) =
        scanNodes bp (nodeNames graph) rest (result2, resolved2)
    \<and> settled seed graph bp (result2, resolved2)"
proof (cases "node_name n \<in> set resolved
              \<or> list_ex (\<lambda>t. t \<in> set (nodeNames graph) \<and> t \<notin> set resolved) targets")
  case True
  then have "scanNodes bp (nodeNames graph) ((n, targets) # rest) (result, resolved) =
             scanNodes bp (nodeNames graph) rest (result, resolved)"
    by simp
  then show ?thesis using assms(3) by blast
next
  case False
  then have new: "node_name n \<notin> set resolved"
    and all: "\<forall>t \<in> set targets. t \<in> set (nodeNames graph) \<longrightarrow> t \<in> set resolved"
    by (simp_all add: list_ex_iff)
  define x where "x = node_name n"
  define add where "add = (result x = None \<and> list_ex (\<lambda>t. result t \<noteq> None) targets)"
  define r where "r = (if add then result (x \<mapsto> bp (currentVersion n)) else result)"
  define res where "res = resolved @ [x]"
  have s: "scanNodes bp (nodeNames graph) ((n, targets) # rest) (result, resolved) =
           scanNodes bp (nodeNames graph) rest (r, res)"
    using False by (simp add: x_def add_def r_def res_def)
  note inv = assms(3)[unfolded settled_iff]
  have i1: "\<forall>x v. seed x = Some v \<longrightarrow> result x = Some v" using inv by (rule conjunct1)
  have i2: "\<forall>x. seed x = None \<and> result x \<noteq> None \<longrightarrow> x \<in> set resolved"
    using inv by (elim conjE)
  have i3: "\<forall>entry \<in> set graph. node_name (fst entry) \<in> set resolved \<longrightarrow>
           (\<forall>t \<in> set (snd entry). t \<in> set (nodeNames graph) \<longrightarrow> t \<in> set resolved) \<and>
           (seed (node_name (fst entry)) = None \<longrightarrow>
              result (node_name (fst entry)) =
                (if \<exists>t \<in> set (snd entry). result t \<noteq> None
                 then Some (bp (currentVersion (fst entry))) else None))"
    using inv by (elim conjE)
  have i4: "set resolved \<subseteq> set (nodeNames graph)" using inv by (elim conjE)
  have xr: "x \<notin> set resolved" using new by (simp add: x_def)
  have xn: "x \<in> set (nodeNames graph)" using assms(2) by (force simp: nodeNames_def x_def)
  have same: "r y = result y" if "y \<noteq> x" for y using that by (simp add: r_def)
  have at: "r x = (if add then Some (bp (currentVersion n)) else result x)" by (simp add: r_def)
  have mem: "y \<in> set res \<longleftrightarrow> y \<in> set resolved \<or> y = x" for y by (auto simp: res_def)
  have j1: "\<forall>y v. seed y = Some v \<longrightarrow> r y = Some v"
  proof (intro allI impI)
    fix y v assume sy: "seed y = Some v"
    then have ry: "result y = Some v" using i1 by blast
    show "r y = Some v"
    proof (cases "y = x")
      case True
      then have "\<not> add" using ry by (simp add: add_def)
      then show ?thesis using at ry True by simp
    next
      case False
      then show ?thesis using same ry by simp
    qed
  qed
  have j2: "\<forall>y. seed y = None \<and> r y \<noteq> None \<longrightarrow> y \<in> set res"
  proof (intro allI impI)
    fix y assume a: "seed y = None \<and> r y \<noteq> None"
    show "y \<in> set res"
    proof (cases "y = x")
      case True
      then show ?thesis using mem by blast
    next
      case False
      then have "result y \<noteq> None" using a same by simp
      then have "y \<in> set resolved" using a i2 by blast
      then show ?thesis using mem by blast
    qed
  qed
  have j3: "\<forall>entry \<in> set graph. node_name (fst entry) \<in> set res \<longrightarrow>
           (\<forall>t \<in> set (snd entry). t \<in> set (nodeNames graph) \<longrightarrow> t \<in> set res) \<and>
           (seed (node_name (fst entry)) = None \<longrightarrow>
              r (node_name (fst entry)) =
                (if \<exists>t \<in> set (snd entry). r t \<noteq> None
                 then Some (bp (currentVersion (fst entry))) else None))"
  proof (intro ballI impI)
    fix entry assume e: "entry \<in> set graph" and rs: "node_name (fst entry) \<in> set res"
    have unchanged: "(\<exists>t \<in> set (snd entry). r t \<noteq> None) = (\<exists>t \<in> set (snd entry). result t \<noteq> None)"
      if a: "\<forall>t \<in> set (snd entry). t \<in> set (nodeNames graph) \<longrightarrow> t \<in> set resolved"
    proof -
      have nx: "x \<notin> set (snd entry)" using a xn xr by blast
      have "\<forall>t \<in> set (snd entry). r t = result t"
      proof
        fix t assume "t \<in> set (snd entry)"
        then have "t \<noteq> x" using nx by auto
        then show "r t = result t" by (rule same)
      qed
      then show ?thesis by auto
    qed
    show "(\<forall>t \<in> set (snd entry). t \<in> set (nodeNames graph) \<longrightarrow> t \<in> set res) \<and>
           (seed (node_name (fst entry)) = None \<longrightarrow>
              r (node_name (fst entry)) =
                (if \<exists>t \<in> set (snd entry). r t \<noteq> None
                 then Some (bp (currentVersion (fst entry))) else None))"
    proof (cases "node_name (fst entry) = x")
      case True
      from distinct_entry[OF assms(1) e assms(2)] True have ee: "entry = (n, targets)"
        by (simp add: x_def)
      have a: "\<forall>t \<in> set (snd entry). t \<in> set (nodeNames graph) \<longrightarrow> t \<in> set resolved"
        using all ee by simp
      have a1: "\<forall>t \<in> set (snd entry). t \<in> set (nodeNames graph) \<longrightarrow> t \<in> set res"
        using a mem by blast
      have a2: "r x = (if \<exists>t \<in> set (snd entry). r t \<noteq> None then Some (bp (currentVersion n)) else None)"
        if sx: "seed x = None"
      proof -
        have rx: "result x = None" using sx i2 xr by blast
        then have "add = (\<exists>t \<in> set (snd entry). result t \<noteq> None)"
          using ee by (simp add: add_def list_ex_iff)
        then show ?thesis using at unchanged[OF a] rx by simp
      qed
      have f: "fst entry = n" using ee by simp
      show ?thesis using a1 a2 True f by simp
    next
      case False
      then have old: "node_name (fst entry) \<in> set resolved" using rs mem by blast
      from i3 e old have a: "\<forall>t \<in> set (snd entry). t \<in> set (nodeNames graph) \<longrightarrow> t \<in> set resolved"
        and b: "seed (node_name (fst entry)) = None \<longrightarrow>
              result (node_name (fst entry)) =
                (if \<exists>t \<in> set (snd entry). result t \<noteq> None
                 then Some (bp (currentVersion (fst entry))) else None)"
        by blast+
      have k: "r (node_name (fst entry)) = result (node_name (fst entry))"
        using False by (rule same)
      have a1: "\<forall>t \<in> set (snd entry). t \<in> set (nodeNames graph) \<longrightarrow> t \<in> set res"
        using a mem by blast
      show ?thesis unfolding k unchanged[OF a] using a1 b by blast
    qed
  qed
  have j4: "set res \<subseteq> set (nodeNames graph)" using i4 mem xn by blast
  have "settled seed graph bp (r, res)"
    unfolding settled_iff using j1 j2 j3 j4 by (intro conjI)
  then show ?thesis using s by blast
qed

lemma settled_pass:
  assumes "distinct (nodeNames graph)" and "set rest \<subseteq> set graph"
    and "settled seed graph bp (result, resolved)"
  shows "settled seed graph bp (scanNodes bp (nodeNames graph) rest (result, resolved))"
  using assms(2,3)
proof (induction rest arbitrary: result resolved)
  case Nil
  then show ?case by simp
next
  case (Cons entry rest)
  obtain n targets where e: "entry = (n, targets)" by (cases entry)
  have "(n, targets) \<in> set graph" using Cons.prems(1) e by simp
  from settled_step[OF assms(1) this Cons.prems(2), of rest]
  obtain result2 resolved2 where
    s: "scanNodes bp (nodeNames graph) ((n, targets) # rest) (result, resolved) =
        scanNodes bp (nodeNames graph) rest (result2, resolved2)"
    and i: "settled seed graph bp (result2, resolved2)"
    by blast
  have "set rest \<subseteq> set graph" using Cons.prems(1) by simp
  from Cons.IH[OF this i] show ?case unfolding e s .
qed

lemma iteratePasses_settled:
  assumes "distinct (nodeNames graph)" and "settled seed graph bp (result, resolved)"
    and "iteratePasses passes bp graph (result, resolved) = Inr r"
  shows "\<exists>resolved2. settled seed graph bp (r, resolved2) \<and> waiting graph resolved2 = []"
  using assms(2,3)
proof (induction passes arbitrary: result resolved)
  case 0
  then show ?case by (auto split: if_splits)
next
  case (Suc passes)
  show ?case
  proof (cases "waiting graph resolved = []")
    case True
    then show ?thesis using Suc.prems by auto
  next
    case False
    obtain result2 resolved2 where
      s: "scanNodes bp (nodeNames graph) graph (result, resolved) = (result2, resolved2)"
      by (cases "scanNodes bp (nodeNames graph) graph (result, resolved)")
    have i: "settled seed graph bp (result2, resolved2)"
      using settled_pass[OF assms(1) subset_refl Suc.prems(1)] s by simp
    have "iteratePasses passes bp graph (result2, resolved2) = Inr r"
      using Suc.prems(2) False s by simp
    from Suc.IH[OF i this] show ?thesis .
  qed
qed

lemma computeClosure_closure:
  assumes "distinct (nodeNames graph)" and "acyclic (edges graph)"
  shows "\<exists>result. computeClosure graph seed bumpPolicy = Inr result
     \<and> (\<forall>x v. seed x = Some v \<longrightarrow> result x = Some v)
     \<and> (\<forall>entry \<in> set graph. seed (node_name (fst entry)) = None \<longrightarrow>
           result (node_name (fst entry)) =
             (if \<exists>t \<in> set (snd entry). result t \<noteq> None
              then Some (bumpPolicy (currentVersion (fst entry))) else None))
     \<and> (\<forall>x. seed x = None \<and> x \<notin> set (nodeNames graph) \<longrightarrow> result x = None)"
proof -
  from computeClosure_acyclic[OF assms(2)] obtain result where
    r: "computeClosure graph seed bumpPolicy = Inr result"
    by blast
  have "settled seed graph bumpPolicy (seed, [])" unfolding settled_iff by auto
  from iteratePasses_settled[OF assms(1) this] r obtain resolved where
    i0: "settled seed graph bumpPolicy (result, resolved)" and w: "waiting graph resolved = []"
    unfolding computeClosure_def by blast
  note i = i0[unfolded settled_iff]
  have all: "\<forall>x \<in> set (nodeNames graph). x \<in> set resolved"
    using w by (auto simp: waiting_def filter_empty_conv)
  have 1: "\<forall>x v. seed x = Some v \<longrightarrow> result x = Some v"
    using i by (rule conjunct1)
  have 2: "\<forall>entry \<in> set graph. seed (node_name (fst entry)) = None \<longrightarrow>
           result (node_name (fst entry)) =
             (if \<exists>t \<in> set (snd entry). result t \<noteq> None
              then Some (bumpPolicy (currentVersion (fst entry))) else None)"
  proof
    fix entry assume e: "entry \<in> set graph"
    then have "node_name (fst entry) \<in> set resolved" using all by (simp add: nodeNames_def)
    then show "seed (node_name (fst entry)) = None \<longrightarrow>
           result (node_name (fst entry)) =
             (if \<exists>t \<in> set (snd entry). result t \<noteq> None
              then Some (bumpPolicy (currentVersion (fst entry))) else None)"
      using i e by blast
  qed
  have 3: "\<forall>x. seed x = None \<and> x \<notin> set (nodeNames graph) \<longrightarrow> result x = None"
    using i by blast
  show ?thesis using r 1 2 3 by blast
qed


end
